theory Spec2Isabelle
  imports Main "HOL-Library.AList"
begin

section \<open>Python strings and POSIX paths\<close>

text \<open>
  Python \<open>str\<close> values are modelled as \<^typ>\<open>string\<close>, one \<^typ>\<open>char\<close> for each character
  of the Python string, so that \<open>len\<close> is \<^const>\<open>length\<close>. Only the string methods that the
  two action plugins (\<open>r_copy.py\<close>, \<open>template_recursive.py\<close>) and the \<open>posixpath\<close> functions
  they call rely on are embedded.
\<close>

definition sep :: char where
  "sep = CHR ''/''"

definition startswith :: "string \<Rightarrow> string \<Rightarrow> bool" where
  "startswith s pre = (take (length pre) s = pre)"

definition endswith :: "string \<Rightarrow> string \<Rightarrow> bool" where
  "endswith s suf = (length suf \<le> length s \<and> drop (length s - length suf) s = suf)"

text \<open>\<open>s.rstrip(chars)\<close>: drop every trailing character that occurs in \<open>chars\<close>.\<close>

definition rstrip :: "string \<Rightarrow> string \<Rightarrow> string" where
  "rstrip s chars = rev (dropWhile (\<lambda>c. c \<in> set chars) (rev s))"

text \<open>\<open>s.rfind(c)\<close>: the index of the last occurrence of \<open>c\<close>, or \<open>-1\<close>.\<close>

fun rfind :: "string \<Rightarrow> char \<Rightarrow> int" where
  "rfind [] c = - 1"
| "rfind (x # xs) c =
     (let r = rfind xs c
      in if 0 \<le> r then r + 1 else if x = c then 0 else - 1)"

text \<open>\<open>posixpath.isabs\<close>: \<open>s.startswith('/')\<close>.\<close>

definition os_path_isabs :: "string \<Rightarrow> bool" where
  "os_path_isabs s = startswith s [sep]"

text \<open>
  \<open>posixpath.dirname\<close>:
  \<^verbatim>\<open>
    i = p.rfind('/') + 1
    head = p[:i]
    if head and head != '/' * len(head):
        head = head.rstrip('/')
    return head
  \<close>
\<close>

definition os_path_dirname :: "string \<Rightarrow> string" where
  "os_path_dirname p =
     (let i = rfind p sep + 1;
          head = take (nat i) p
      in if head \<noteq> [] \<and> head \<noteq> replicate (length head) sep
         then rstrip head [sep] else head)"

text \<open>
  \<open>posixpath.join(a, b)\<close> with one further component:
  \<^verbatim>\<open>
    path = a
    if b.startswith('/'): path = b
    elif not path or path.endswith('/'): path += b
    else: path += '/' + b
  \<close>
\<close>

definition os_path_join :: "string \<Rightarrow> string \<Rightarrow> string" where
  "os_path_join a b =
     (if startswith b [sep] then b
      else if a = [] \<or> endswith a [sep] then a @ b
      else a @ [sep] @ b)"

section \<open>Exceptions\<close>

text \<open>
  An uncaught Python exception ends \<open>run\<close> without a result dictionary. Functions that
  can raise return \<open>py_exception + 'a\<close>, with \<open>Inl\<close> for the exception.
\<close>

datatype py_exception = AssertionError | ValueError | KeyError | AttributeError | TypeError

section \<open>The path ordering engine: \<open>_get_all_parent_dirs\<close>\<close>

lemma rstrip_is_take: "\<exists>n. rstrip s cs = take n s"
proof -
  have "rev (dropWhile P (rev s)) = take (length s - length (takeWhile P (rev s))) s" for P
    by (metis dropWhile_eq_drop rev_rev_ident rev_drop length_rev)
  then show ?thesis unfolding rstrip_def by blast
qed

lemma dirname_is_take: "\<exists>n. os_path_dirname p = take n p"
proof -
  obtain m where "rstrip (take (nat (rfind p sep + 1)) p) [sep] = take m (take (nat (rfind p sep + 1)) p)"
    using rstrip_is_take by blast
  then show ?thesis
    unfolding os_path_dirname_def Let_def by (metis take_take)
qed

lemma dirname_length_le: "length (os_path_dirname p) \<le> length p"
  using dirname_is_take [of p] by (auto simp: min_def)

lemma dirname_same_length: "length (os_path_dirname p) = length p \<Longrightarrow> os_path_dirname p = p"
  using dirname_is_take [of p] by (metis length_take min_def take_all order_refl)

text \<open>
  The inner \<open>while\<close> loop of \<open>_get_all_parent_dirs\<close> for one path:
  \<^verbatim>\<open>
    while (dirname := os.path.dirname(cursor)) not in output:
        output.append(dirname)
        cursor = dirname
  \<close>
  It ends because \<open>dirname\<close> is a prefix of \<open>cursor\<close>: either it is strictly shorter, or
  it equals \<open>cursor\<close> and is found in \<open>output\<close> at the next test.
\<close>

function parent_dirs_loop :: "string \<Rightarrow> string list \<Rightarrow> string list" where
  "parent_dirs_loop cursor output =
     (let dirname = os_path_dirname cursor
      in if dirname \<in> set output then output
         else parent_dirs_loop dirname (output @ [dirname]))"
  by pat_completeness auto
termination
proof (relation "measure (\<lambda>(cursor, output).
          2 * length cursor + (if os_path_dirname cursor \<in> set output then 0 else 1))")
  show "wf (measure (\<lambda>(cursor, output).
          2 * length cursor + (if os_path_dirname cursor \<in> set output then 0 else 1)))"
    by simp
next
  fix cursor :: string and acc :: "string list" and x
  assume x: "x = os_path_dirname cursor" and notin: "x \<notin> set acc"
  show "((x, acc @ [x]), (cursor, acc)) \<in> measure (\<lambda>(cursor, output).
          2 * length cursor + (if os_path_dirname cursor \<in> set output then 0 else 1))"
  proof (cases "length x = length cursor")
    case True
    then have "x = cursor" using x dirname_same_length by simp
    then have "os_path_dirname x = x" using x by simp
    then show ?thesis using notin x True by simp
  next
    case False
    then have "length x < length cursor"
      using dirname_length_le [of cursor] x by simp
    then show ?thesis using notin x by simp
  qed
qed

declare parent_dirs_loop.simps [simp del]

text \<open>
  \<^verbatim>\<open>
    output = []
    assert all(os.path.isabs(path) for path in paths), "all paths must be absolute"
    for path in paths: <loop above with cursor = path>
    return output
  \<close>
\<close>

definition get_all_parent_dirs :: "string list \<Rightarrow> py_exception + string list" where
  "get_all_parent_dirs paths =
     (if \<not> list_all os_path_isabs paths then Inl AssertionError
      else Inr (fold parent_dirs_loop paths []))"

section \<open>Python values\<close>

text \<open>
  Task arguments are dynamically typed. \<open>Str\<close> is a Python \<open>str\<close>; \<open>Dict\<close> is a dictionary
  from a value to a list of path strings (the shape of the \<open>*_overrides\<close> tables), kept as
  an association list in insertion order, which is the order \<open>items()\<close>, \<open>keys()\<close> and
  \<open>values()\<close> iterate in; \<open>NonStr\<close> stands for any other object (an integer, \<open>None\<close>, ...),
  identified by a tag. A dictionary of arguments is an association list from the argument
  name, read with \<^const>\<open>map_of\<close> and written with \<^const>\<open>AList.update\<close> (an existing key
  keeps its place, a new key goes last) and \<^const>\<open>AList.delete\<close>.
\<close>

datatype pyval = Str string | NonStr nat | Dict "(pyval \<times> string list) list"

type_synonym overrides = "(pyval \<times> string list) list"

type_synonym args = "(string \<times> pyval) list"

definition isinstance_str :: "pyval \<Rightarrow> bool" where
  "isinstance_str v = (case v of Str s \<Rightarrow> True | _ \<Rightarrow> False)"

section \<open>The mode pattern\<close>

text \<open>
  \<open>re.fullmatch(r"[0-7]{4}", mode)\<close>. The pattern uses a character range and a counted
  repetition; \<open>re_consume r s\<close> lists what is left of \<open>s\<close> after each way of matching \<open>r\<close>
  against a prefix of \<open>s\<close>, and a full match is one that leaves nothing.
\<close>

datatype regex = CharRange char char | Repeat regex nat

fun re_consume :: "regex \<Rightarrow> string \<Rightarrow> string list" where
  "re_consume (CharRange lo hi) [] = []"
| "re_consume (CharRange lo hi) (c # cs) =
     (if (of_char lo :: nat) \<le> of_char c \<and> (of_char c :: nat) \<le> of_char hi then [cs] else [])"
| "re_consume (Repeat r n) s = ((\<lambda>rests. concat (map (re_consume r) rests)) ^^ n) [s]"

definition re_fullmatch :: "regex \<Rightarrow> string \<Rightarrow> bool" where
  "re_fullmatch r s = ([] \<in> set (re_consume r s))"

definition mode_regex :: regex where
  "mode_regex = Repeat (CharRange (CHR ''0'') (CHR ''7'')) 4"

definition mode_regex_text :: string where
  "mode_regex_text = ''[0-7]{4}''"

section \<open>Sub-operation outputs and the accumulated result\<close>

text \<open>
  A diff record is a dictionary (key to value, both strings here). A sub-operation reports
  either one diff record or a list of them. In a task output a field is \<open>None\<close> when the
  key is absent. \<open>out_changed\<close> and \<open>out_failed\<close> are compared with \<open>is True\<close> by the copy
  variant, so \<open>Some False\<close> also stands for any value that is not the boolean \<open>True\<close>.
\<close>

type_synonym diff_entry = "(string \<times> string) list"

datatype diff_value = DiffDict diff_entry | DiffList "diff_entry list"

record task_output =
  out_changed :: "bool option"
  out_failed :: "bool option"
  out_msg :: "string option"
  out_diff :: "diff_value option"

record result =
  changed :: bool
  failed :: bool
  msg :: string
  diff :: "diff_entry list"

text \<open>\<open>"key" in d\<close> for a diff: key membership in a dictionary; in a list of diff records
  the string is compared with the records, and equals none of them.\<close>

definition diff_contains :: "string \<Rightarrow> diff_value \<Rightarrow> bool" where
  "diff_contains k d = (case d of DiffDict e \<Rightarrow> map_of e k \<noteq> None | DiffList l \<Rightarrow> False)"

definition diff_get :: "diff_value \<Rightarrow> string \<Rightarrow> string option" where
  "diff_get d k = (case d of DiffDict e \<Rightarrow> map_of e k | DiffList l \<Rightarrow> None)"

text \<open>
  \<open>r_copy.py\<close>, \<open>_do_save_diff\<close>:
  \<^verbatim>\<open>
    if "diff" not in _task_output: return False
    if _task_output.get("changed", False) is True: return True
    if ("before" in _task_output["diff"] and "after" in _task_output["diff"]
        and _task_output["diff"]["before"] == _task_output["diff"]["after"]):
        return False
    return True
  \<close>
\<close>

definition do_save_diff :: "task_output \<Rightarrow> bool" where
  "do_save_diff t =
     (case out_diff t of
        None \<Rightarrow> False
      | Some d \<Rightarrow>
          if out_changed t = Some True then True
          else if diff_contains ''before'' d \<and> diff_contains ''after'' d
                  \<and> diff_get d ''before'' = diff_get d ''after''
          then False
          else True)"

text \<open>\<open>result["diff"] += d\<close> for a list, \<open>result["diff"].append(d)\<close> otherwise.\<close>

definition add_diff :: "result \<Rightarrow> diff_value \<Rightarrow> result" where
  "add_diff r d =
     (case d of DiffList l \<Rightarrow> r\<lparr>diff := diff r @ l\<rparr> | DiffDict e \<Rightarrow> r\<lparr>diff := diff r @ [e]\<rparr>)"

definition newline :: string where
  "newline = [char_of (10 :: nat)]"

text \<open>The part shared by both variants: the \<open>changed\<close>, \<open>failed\<close> and \<open>msg\<close> updates.\<close>

definition update_flags_and_msg :: "result \<Rightarrow> task_output \<Rightarrow> result" where
  "update_flags_and_msg r t =
     (let r1 = (if out_changed t = Some True then r\<lparr>changed := True\<rparr> else r);
          r2 = (if out_failed t = Some True then r1\<lparr>failed := True\<rparr> else r1)
      in case out_msg t of
           None \<Rightarrow> r2
         | Some m \<Rightarrow> r2\<lparr>msg := msg r2 @ newline @ m\<rparr>)"

text \<open>\<open>r_copy.py\<close>, \<open>ActionModule._update_result_from_task\<close>.\<close>

definition r_copy_update_result_from_task :: "result \<Rightarrow> task_output \<Rightarrow> result" where
  "r_copy_update_result_from_task r t =
     (let r3 = update_flags_and_msg r t
      in if do_save_diff t
         then (case out_diff t of Some d \<Rightarrow> add_diff r3 d | None \<Rightarrow> r3)
         else r3)"

text \<open>\<open>template_recursive.py\<close>, \<open>update_result_from_task\<close> inside \<open>run\<close>: after the same three
  updates, \<^verbatim>\<open>if "diff" in task_output:\<close> adds the diff.\<close>

definition template_update_result_from_task :: "result \<Rightarrow> task_output \<Rightarrow> result" where
  "template_update_result_from_task r t =
     (let r3 = update_flags_and_msg r t
      in case out_diff t of Some d \<Rightarrow> add_diff r3 d | None \<Rightarrow> r3)"

text \<open>The start of both \<open>run\<close> methods, and their failure helper \<open>_result_failed\<close>.\<close>

definition init_result :: result where
  "init_result = \<lparr>changed = False, failed = False, msg = [], diff = []\<rparr>"

definition result_failed :: "result \<Rightarrow> string \<Rightarrow> result" where
  "result_failed r m = r\<lparr>failed := True, msg := m\<rparr>"

section \<open>The control node and the remote operations\<close>

text \<open>
  What \<open>run\<close> reads from the machine it runs on is a parameter: the lower-cased
  \<open>platform.system()\<close>, \<open>os.path.isdir\<close>, and for a root directory the regular files that
  \<open>os.walk\<close> finds, in the order of the walk, each as the pair of
  \<open>os.path.join(dirpath, filename)\<close> and \<open>os.path.relpath\<close> of that path from the root.
  \<open>isdir\<close> is \<open>os.path.isdir\<close> of a path string. \<open>isdir_other\<close> is \<open>os.path.isdir\<close> of a
  value that is no string: an integer is read as a file descriptor (\<open>False\<close> when there is
  no such descriptor), and for other objects \<open>os.stat\<close> raises \<open>TypeError\<close>. \<open>os.walk\<close> of a
  value that is no path raises \<open>TypeError\<close>.
  \<open>set_order\<close> is the order in which \<open>list(set(xs))\<close> enumerates. The three \<open>fmt\<close> fields
  are how an f-string prints a value that is not a string, the type of a value, and a
  collection of paths; they only occur in failure messages.
\<close>

record control_node =
  this_os :: string
  isdir :: "string \<Rightarrow> bool"
  isdir_other :: "pyval \<Rightarrow> py_exception + bool"
  walk_files :: "string \<Rightarrow> (string \<times> string) list"
  set_order :: "string list \<Rightarrow> string list"
  fmt :: "pyval \<Rightarrow> string"
  fmt_type :: "pyval \<Rightarrow> string"
  fmt_paths :: "string list \<Rightarrow> string"

definition dq :: string where
  "dq = [char_of (34 :: nat)]"

definition fstr :: "control_node \<Rightarrow> pyval \<Rightarrow> string" where
  "fstr cn v = (case v of Str s \<Rightarrow> s | _ \<Rightarrow> fmt cn v)"

text \<open>
  The operations the copy variant issues. \<open>FileDirectory path owner group mode\<close> is the
  module \<open>unity.file_multi_diff.file\<close> with \<open>state=directory\<close> (\<open>_mkdir_chmod_chown\<close>);
  \<open>CopyFile src dest owner group mode\<close> is the action \<open>unity.copy_multi_diff.copy\<close>
  (\<open>_copy_chmod_chown\<close>). The remote side is a function from an operation and the state
  of the world to the operation's output and the new state. A run keeps, besides the
  result, the list of the operations issued so far, each with its output.
\<close>

datatype remote_op =
    FileDirectory string pyval pyval pyval
  | CopyFile string string pyval pyval pyval

type_synonym 'w remote = "remote_op \<Rightarrow> 'w \<Rightarrow> task_output \<times> 'w"

type_synonym 'w run_state = "result \<times> (remote_op \<times> task_output) list \<times> 'w"

section \<open>Exceptions in sequence, dictionary access\<close>

definition and_then :: "py_exception + 'a \<Rightarrow> ('a \<Rightarrow> py_exception + 'b) \<Rightarrow> py_exception + 'b" where
  "and_then m f = (case m of Inl e \<Rightarrow> Inl e | Inr x \<Rightarrow> f x)"

text \<open>\<open>d[k]\<close> raises \<open>KeyError\<close> on a missing key; \<open>v.items()\<close> raises \<open>AttributeError\<close>
  when \<open>v\<close> is not a dictionary.\<close>

definition getitem :: "args \<Rightarrow> string \<Rightarrow> py_exception + pyval" where
  "getitem a k = (case map_of a k of None \<Rightarrow> Inl KeyError | Some v \<Rightarrow> Inr v)"

definition dict_items :: "pyval \<Rightarrow> py_exception + overrides" where
  "dict_items v = (case v of Dict d \<Rightarrow> Inr d | _ \<Rightarrow> Inl AttributeError)"

section \<open>The policy resolver of the copy variant\<close>

text \<open>
  \<^verbatim>\<open>
    for value, paths in self._task.args[table].items():
        if path in paths:
            return value
  \<close>
  \<open>first_override\<close> is the loop; \<open>None\<close> means that it fell through.
\<close>

definition first_override :: "overrides \<Rightarrow> string \<Rightarrow> pyval option" where
  "first_override tbl path = map_option fst (find (\<lambda>(value, paths). path \<in> set paths) tbl)"

definition lookup_override :: "args \<Rightarrow> string \<Rightarrow> string \<Rightarrow> py_exception + pyval option" where
  "lookup_override a table path =
     and_then (getitem a table) (\<lambda>v.
     and_then (dict_items v) (\<lambda>tbl. Inr (first_override tbl path)))"

definition get_mode :: "args \<Rightarrow> string \<Rightarrow> string \<Rightarrow> py_exception + pyval" where
  "get_mode a path file_or_dir =
     (if file_or_dir \<notin> set [''file'', ''dir''] then Inl AssertionError
      else and_then (lookup_override a ''mode_overrides'' path) (\<lambda>found.
        case found of
          Some mode \<Rightarrow> Inr mode
        | None \<Rightarrow> if file_or_dir = ''file'' then getitem a ''mode''
                  else getitem a ''parent_dirs_mode''))"

definition get_owner :: "args \<Rightarrow> string \<Rightarrow> py_exception + pyval" where
  "get_owner a path =
     and_then (lookup_override a ''owner_overrides'' path) (\<lambda>found.
       case found of Some owner \<Rightarrow> Inr owner | None \<Rightarrow> getitem a ''owner'')"

definition get_group :: "args \<Rightarrow> string \<Rightarrow> py_exception + pyval" where
  "get_group a path =
     and_then (lookup_override a ''group_overrides'' path) (\<lambda>found.
       case found of Some owner \<Rightarrow> Inr owner | None \<Rightarrow> getitem a ''group'')"

text \<open>The arguments \<open>_mkdir_chmod_chown\<close> and \<open>_copy_chmod_chown\<close> build, in the order in
  which the dictionary literal evaluates them: owner, group, mode.\<close>

definition mkdir_chmod_chown :: "args \<Rightarrow> string \<Rightarrow> py_exception + remote_op" where
  "mkdir_chmod_chown a path =
     and_then (get_owner a path) (\<lambda>owner.
     and_then (get_group a path) (\<lambda>group.
     and_then (get_mode a path ''dir'') (\<lambda>mode.
       Inr (FileDirectory path owner group mode))))"

definition copy_chmod_chown :: "args \<Rightarrow> string \<times> string \<Rightarrow> py_exception + remote_op" where
  "copy_chmod_chown a sd =
     (case sd of (src, dest) \<Rightarrow>
        and_then (get_owner a dest) (\<lambda>owner.
        and_then (get_group a dest) (\<lambda>group.
        and_then (get_mode a dest ''file'') (\<lambda>mode.
          Inr (CopyFile src dest owner group mode)))))"

section \<open>The validation gate of the copy variant\<close>

definition SUPPORTED_OS :: "string list" where
  "SUPPORTED_OS = [''linux'', ''darwin'']"

definition supported_args :: "string list" where
  "supported_args = [''owner'', ''group'', ''mode'', ''parent_dirs_mode'', ''src_root'',
     ''mode_overrides'', ''owner_overrides'', ''group_overrides'']"

definition required_args :: "string list" where
  "required_args = [''owner'', ''group'', ''mode'', ''parent_dirs_mode'', ''src_root'']"

definition override_arg_names :: "string list" where
  "override_arg_names = [''mode_overrides'', ''owner_overrides'', ''group_overrides'']"

text \<open>
  \<^verbatim>\<open>
    for mode in [args["mode"], args["parent_dirs_mode"], *args.get("mode_overrides", {}).keys()]:
        if not isinstance(mode, str):
            return _result_failed(f'mode "{mode}" is not a string! found type: "{type(mode)}"')
        mode_regex = r"[0-7]{4}"
        if not re.fullmatch(mode_regex, mode):
            return _result_failed(f'mode "{mode}" does not match regex: "{mode_regex}"')
  \<close>
  \<open>mode_values\<close> is the list the loop runs over, \<open>check_modes\<close> the loop: the message of the
  first failure, or \<open>None\<close> when every mode passes.
\<close>

definition mode_values :: "args \<Rightarrow> py_exception + pyval list" where
  "mode_values a =
     and_then (getitem a ''mode'') (\<lambda>m.
     and_then (getitem a ''parent_dirs_mode'') (\<lambda>pm.
     and_then (case map_of a ''mode_overrides'' of None \<Rightarrow> Inr [] | Some v \<Rightarrow> dict_items v)
       (\<lambda>tbl. Inr ([m, pm] @ map fst tbl))))"

fun check_modes :: "control_node \<Rightarrow> pyval list \<Rightarrow> string option" where
  "check_modes cn [] = None"
| "check_modes cn (mode # modes) =
     (case mode of
        Str s \<Rightarrow>
          if \<not> re_fullmatch mode_regex s
          then Some (''mode '' @ dq @ s @ dq @ '' does not match regex: '' @ dq @ mode_regex_text @ dq)
          else check_modes cn modes
      | _ \<Rightarrow> Some (''mode '' @ dq @ fstr cn mode @ dq @ '' is not a string! found type: ''
                    @ dq @ fmt_type cn mode @ dq))"

text \<open>
  Lines 145 to 179 of \<open>run\<close>: the platform, the required and the supported arguments, the
  source root, the modes. \<open>Inr (Some m)\<close> is \<open>return _result_failed(m)\<close>, \<open>Inr None\<close> is
  falling through to the rest of \<open>run\<close>.
\<close>

definition r_copy_validate :: "control_node \<Rightarrow> args \<Rightarrow> py_exception + string option" where
  "r_copy_validate cn a =
     (if this_os cn \<notin> set SUPPORTED_OS
      then Inr (Some (''unsupported OS: '' @ dq @ this_os cn @ dq))
      else case find (\<lambda>arg_name. map_of a arg_name = None) required_args of
        Some arg_name \<Rightarrow> Inr (Some (''argument required: '' @ dq @ arg_name @ dq))
      | None \<Rightarrow>
      (case find (\<lambda>arg_name. arg_name \<notin> set supported_args) (map fst a) of
        Some arg_name \<Rightarrow> Inr (Some (''unsupported argument: '' @ dq @ arg_name @ dq))
      | None \<Rightarrow>
        and_then (getitem a ''src_root'') (\<lambda>root.
          case root of
            Str src_root \<Rightarrow>
              if \<not> isdir cn src_root
              then Inr (Some (dq @ src_root @ dq @ '' is not a directory!''))
              else and_then (mode_values a) (\<lambda>modes. Inr (check_modes cn modes))
          | _ \<Rightarrow>
              and_then (isdir_other cn root) (\<lambda>found.
                if \<not> found
                then Inr (Some (dq @ fstr cn root @ dq @ '' is not a directory!''))
                else and_then (mode_values a) (\<lambda>modes. Inr (check_modes cn modes))))))"

section \<open>Normalization of the override tables\<close>

text \<open>
  \<^verbatim>\<open>
    for arg_name in ["mode_overrides", "owner_overrides", "group_overrides"]:
        if arg_name not in args:
            args[arg_name] = {}
    for arg_name in ["mode_overrides", "owner_overrides", "group_overrides"]:
        for override, paths in args[arg_name].items():
            args[arg_name] = {override: [x.rstrip("/") for x in paths]}
  \<close>
  The inner loop iterates over the items of the dictionary that \<open>args[arg_name]\<close> held when
  the loop began, and each iteration binds \<open>args[arg_name]\<close> to a new dictionary with the
  one entry of that iteration.
\<close>

definition default_tables :: "args \<Rightarrow> args" where
  "default_tables a =
     fold (\<lambda>arg_name a'. if map_of a' arg_name = None then AList.update arg_name (Dict []) a' else a')
       override_arg_names a"

definition strip_paths :: "string list \<Rightarrow> string list" where
  "strip_paths paths = map (\<lambda>x. rstrip x [sep]) paths"

definition normalize_table :: "overrides \<Rightarrow> overrides \<Rightarrow> overrides" where
  "normalize_table items current =
     fold (\<lambda>(override, paths) cur. [(override, strip_paths paths)]) items current"

definition normalize_arg :: "string \<Rightarrow> args \<Rightarrow> py_exception + args" where
  "normalize_arg arg_name a =
     and_then (getitem a arg_name) (\<lambda>v.
     and_then (dict_items v) (\<lambda>tbl.
       Inr (AList.update arg_name (Dict (normalize_table tbl tbl)) a)))"

definition normalize_overrides :: "args \<Rightarrow> py_exception + args" where
  "normalize_overrides a =
     and_then (normalize_arg ''mode_overrides'' (default_tables a)) (\<lambda>a1.
     and_then (normalize_arg ''owner_overrides'' a1) (\<lambda>a2.
       normalize_arg ''group_overrides'' a2))"

section \<open>The tree walk and the paths of the copy variant\<close>

text \<open>
  \<^verbatim>\<open>
    for dirpath, dirnames, filenames in os.walk(args["src_root"]):
        for filename in filenames:
            full_src_path = os.path.join(dirpath, filename)
            relative_src_path = os.path.relpath(full_src_path, args["src_root"])
            dest_path = os.path.join("/", relative_src_path)
            src_dest_tuples.append((full_src_path, dest_path))
  \<close>
\<close>

definition src_dest_tuples :: "control_node \<Rightarrow> string \<Rightarrow> (string \<times> string) list" where
  "src_dest_tuples cn src_root =
     map (\<lambda>(full_src_path, relative_src_path).
            (full_src_path, os_path_join [sep] relative_src_path))
         (walk_files cn src_root)"

text \<open>
  \<^verbatim>\<open>
    destination_dirs = sorted(_get_all_parent_dirs(destination_files), key=len)
    destination_dirs.remove("/")  # don't mess with root directory
  \<close>
  \<open>sorted\<close> is stable, as \<^const>\<open>sort_key\<close> is; \<open>list.remove(x)\<close> deletes the first \<open>x\<close> and
  raises \<open>ValueError\<close> when there is none.
\<close>

definition destination_dirs :: "string list \<Rightarrow> py_exception + string list" where
  "destination_dirs destination_files =
     and_then (get_all_parent_dirs destination_files) (\<lambda>parents.
       let sorted_dirs = sort_key length parents
       in if [sep] \<in> set sorted_dirs then Inr (remove1 [sep] sorted_dirs) else Inl ValueError)"

text \<open>
  \<^verbatim>\<open>
    override_paths = set()
    for arg_name in ["mode_overrides", "owner_overrides", "group_overrides"]:
        for path_list in args[arg_name].values():
            for path in path_list:
                override_paths.add(path)
    overrides_not_found = set(override_paths) - set(destination_paths)
  \<close>
  The sets are lists without repetition.
\<close>

definition table_paths :: "args \<Rightarrow> string \<Rightarrow> py_exception + string list" where
  "table_paths a arg_name =
     and_then (getitem a arg_name) (\<lambda>v.
     and_then (dict_items v) (\<lambda>tbl. Inr (concat (map snd tbl))))"

definition override_paths :: "args \<Rightarrow> py_exception + string list" where
  "override_paths a =
     and_then (table_paths a ''mode_overrides'') (\<lambda>p1.
     and_then (table_paths a ''owner_overrides'') (\<lambda>p2.
     and_then (table_paths a ''group_overrides'') (\<lambda>p3.
       Inr (remdups (p1 @ p2 @ p3)))))"

definition overrides_not_found :: "string list \<Rightarrow> string list \<Rightarrow> string list" where
  "overrides_not_found paths destination_paths = filter (\<lambda>p. p \<notin> set destination_paths) paths"

section \<open>The reconciliation driver of the copy variant\<close>

text \<open>
  Both loops at the end of \<open>run\<close> have one shape:
  \<^verbatim>\<open>
    for x in xs:
        self._update_result_from_task(<operation built from x>)
        if self.result["failed"]:
            return self.result
  \<close>
  \<open>apply_each\<close> is that loop. The flag it returns says whether the loop left \<open>run\<close> through
  the \<open>return\<close> in its body.
\<close>

fun apply_each ::
  "'w remote \<Rightarrow> ('a \<Rightarrow> py_exception + remote_op) \<Rightarrow> 'a list \<Rightarrow> 'w run_state
     \<Rightarrow> py_exception + (bool \<times> 'w run_state)" where
  "apply_each remote build [] st = Inr (False, st)"
| "apply_each remote build (x # xs) st =
     (case build x of
        Inl e \<Rightarrow> Inl e
      | Inr op \<Rightarrow>
          (case st of (r, tr, w) \<Rightarrow>
            (case remote op w of (out, w') \<Rightarrow>
               let r' = r_copy_update_result_from_task r out;
                   st' = (r', tr @ [(op, out)], w')
               in if failed r' then Inr (True, st') else apply_each remote build xs st')))"

definition invalid_overrides_msg :: "control_node \<Rightarrow> string list \<Rightarrow> string list \<Rightarrow> string" where
  "invalid_overrides_msg cn not_found destination_paths =
     ''overrides specified for invalid paths: '' @ fmt_paths cn not_found @ ''. ''
       @ ''valid paths: '' @ fmt_paths cn destination_paths"

text \<open>
  \<open>r_copy.py\<close>, \<open>ActionModule.run\<close>, lines 145 to 211: everything before the first remote
  operation. \<open>Inl e\<close> is an uncaught exception; \<open>Inr (Inl m)\<close> is \<open>return _result_failed(m)\<close>;
  \<open>Inr (Inr (a, dirs, tuples))\<close> is reaching line 213 with the normalized arguments \<open>a\<close>,
  \<open>destination_dirs = dirs\<close> and \<open>src_dest_tuples = tuples\<close>.
\<close>

type_synonym copy_plan = "args \<times> string list \<times> (string \<times> string) list"

definition r_copy_prepare :: "control_node \<Rightarrow> args \<Rightarrow> py_exception + (string + copy_plan)" where
  "r_copy_prepare cn task_args =
     and_then (r_copy_validate cn task_args) (\<lambda>verdict.
       case verdict of
         Some m \<Rightarrow> Inr (Inl m)
       | None \<Rightarrow>
     and_then (normalize_overrides task_args) (\<lambda>a.
     and_then (getitem a ''src_root'') (\<lambda>root.
       case root of
         Str src_root \<Rightarrow>
           (let tuples = src_dest_tuples cn src_root;
                destination_files = map snd tuples
            in and_then (destination_dirs destination_files) (\<lambda>dirs.
               let destination_paths = destination_files @ dirs
               in and_then (override_paths a) (\<lambda>paths.
                  let not_found = overrides_not_found paths destination_paths
                  in if length not_found > 0
                     then Inr (Inl (invalid_overrides_msg cn not_found destination_paths))
                     else Inr (Inr (a, dirs, tuples)))))
       | _ \<Rightarrow> Inl TypeError)))"

text \<open>
  Lines 213 to 222: the directory loop, then the file loop, each leaving \<open>run\<close> at the
  first failure.
\<close>

definition r_copy_drive :: "'w remote \<Rightarrow> copy_plan \<Rightarrow> 'w \<Rightarrow> py_exception + 'w run_state" where
  "r_copy_drive remote plan w =
     (case plan of (a, dirs, tuples) \<Rightarrow>
        and_then (apply_each remote (mkdir_chmod_chown a) dirs (init_result, [], w))
          (\<lambda>(returned, st).
             if returned then Inr st
             else and_then (apply_each remote (copy_chmod_chown a) tuples st)
                    (\<lambda>(returned', st'). Inr st')))"

text \<open>
  \<open>ActionModule.run\<close> as a whole. The result is an exception, or the result dictionary
  together with the operations issued and the state of the remote side.
\<close>

definition r_copy_run ::
  "control_node \<Rightarrow> 'w remote \<Rightarrow> args \<Rightarrow> 'w \<Rightarrow> py_exception + 'w run_state" where
  "r_copy_run cn remote task_args w =
     and_then (r_copy_prepare cn task_args) (\<lambda>prepared.
       case prepared of
         Inl m \<Rightarrow> Inr (result_failed init_result m, [], w)
       | Inr plan \<Rightarrow> r_copy_drive remote plan w)"

section \<open>The template variant\<close>

text \<open>
  \<^verbatim>\<open>
    def strip_end(text: str, suffix: str) -> str:
        if isinstance(suffix, str) and len(suffix) > 0 and text.endswith(suffix):
            return text[: -len(suffix)]
        else:
            return text
  \<close>
\<close>

definition strip_end :: "string \<Rightarrow> pyval \<Rightarrow> string" where
  "strip_end text suffix =
     (case suffix of
        Str suf \<Rightarrow>
          if length suf > 0 \<and> endswith text suf then take (length text - length suf) text
          else text
      | _ \<Rightarrow> text)"

text \<open>
  The remote side of the template variant answers two kinds of request: the stat of a
  path (\<open>_execute_remote_stat\<close>, giving \<open>exists\<close> and \<open>isdir\<close>), and an operation, which
  is the \<open>file\<close> module with its module arguments (\<open>_create_directory\<close>) or the action
  \<open>unity.template_multi_diff.template\<close> with its task arguments (\<open>_run_template_action\<close>).
  The events of a run are the requests with their answers. Every request is taken to be
  answered: a connection error raised inside the stat is outside the model.
\<close>

datatype template_op = FileModule args | TemplateAction args

datatype template_event =
    StatEvent string bool bool
  | OpEvent template_op task_output

record 'w template_remote =
  execute_remote_stat :: "string \<Rightarrow> 'w \<Rightarrow> (bool \<times> bool) \<times> 'w"
  execute_op :: "template_op \<Rightarrow> 'w \<Rightarrow> task_output \<times> 'w"

type_synonym 'w template_state = "result \<times> template_event list \<times> 'w"

text \<open>
  \<^verbatim>\<open>
    module_args = {"path": path, "state": "directory"}
    module_args["mode"] = self._task.args.get("new_dir_mode", "0755")
    if "owner" in self._task.args: module_args["owner"] = self._task.args["owner"]
    if "group" in self._task.args: module_args["group"] = self._task.args["group"]
  \<close>
\<close>

definition create_directory :: "args \<Rightarrow> string \<Rightarrow> template_op" where
  "create_directory a path =
     (let m0 = [(''path'', Str path), (''state'', Str ''directory'')];
          m1 = AList.update ''mode''
                 (case map_of a ''new_dir_mode'' of None \<Rightarrow> Str ''0755'' | Some v \<Rightarrow> v) m0;
          m2 = (case map_of a ''owner'' of None \<Rightarrow> m1 | Some v \<Rightarrow> AList.update ''owner'' v m1);
          m3 = (case map_of a ''group'' of None \<Rightarrow> m2 | Some v \<Rightarrow> AList.update ''group'' v m2)
      in FileModule m3)"

text \<open>
  \<^verbatim>\<open>
    template_task = self._task.copy()
    template_task.args["src"] = src
    template_task.args["dest"] = dest
    del template_task.args["templates_root"]
    if "new_dir_mode" in template_task.args:
        del template_task.args["new_dir_mode"]
  \<close>
  The copy has a dictionary of its own, so the task's arguments stay as they are.
\<close>

definition run_template_action :: "args \<Rightarrow> string \<times> string \<Rightarrow> py_exception + template_op" where
  "run_template_action a sd =
     (case sd of (src, dest) \<Rightarrow>
        let a1 = AList.update ''src'' (Str src) a;
            a2 = AList.update ''dest'' (Str dest) a1
        in if map_of a2 ''templates_root'' = None then Inl KeyError
           else let a3 = AList.delete ''templates_root'' a2;
                    a4 = (if map_of a3 ''new_dir_mode'' \<noteq> None
                          then AList.delete ''new_dir_mode'' a3 else a3)
                in Inr (TemplateAction a4))"

text \<open>
  \<^verbatim>\<open>
    for dirpath, dirnames, filenames in os.walk(templates_root):
        for filename in filenames:
            full_src_path = os.path.join(dirpath, filename)
            relative_src_path = os.path.relpath(full_src_path, templates_root)
            dest_path = os.path.join("/", relative_src_path)
            dest_path = strip_end(dest_path, ".j2")
            template_files.append((full_src_path, dest_path))
  \<close>
\<close>

definition template_dest :: "string \<Rightarrow> string" where
  "template_dest relative_src_path = strip_end (os_path_join [sep] relative_src_path) (Str ''.j2'')"

definition template_files :: "control_node \<Rightarrow> string \<Rightarrow> (string \<times> string) list" where
  "template_files cn templates_root =
     map (\<lambda>(full_src_path, relative_src_path). (full_src_path, template_dest relative_src_path))
         (walk_files cn templates_root)"

text \<open>
  \<^verbatim>\<open>
    for dest_dir in list(set(dest_dirs)):
        if not self._does_remote_directory_exist(dest_dir, task_vars):
            update_result_from_task(self._create_directory(dest_dir, task_vars=task_vars))
            if result["failed"]:
                return result
  \<close>
  with \<open>_does_remote_directory_exist\<close> returning \<open>stats["exists"] and stats["isdir"]\<close>.
\<close>

fun create_missing_dirs ::
  "'w template_remote \<Rightarrow> args \<Rightarrow> string list \<Rightarrow> 'w template_state \<Rightarrow> bool \<times> 'w template_state" where
  "create_missing_dirs remote a [] st = (False, st)"
| "create_missing_dirs remote a (dest_dir # dirs) st =
     (case st of (r, tr, w) \<Rightarrow>
       (case execute_remote_stat remote dest_dir w of ((ex, isd), w1) \<Rightarrow>
          let tr1 = tr @ [StatEvent dest_dir ex isd]
          in if \<not> (ex \<and> isd)
             then (case execute_op remote (create_directory a dest_dir) w1 of (out, w2) \<Rightarrow>
                     let r' = template_update_result_from_task r out;
                         st' = (r', tr1 @ [OpEvent (create_directory a dest_dir) out], w2)
                     in if failed r' then (True, st') else create_missing_dirs remote a dirs st')
             else create_missing_dirs remote a dirs (r, tr1, w1)))"

text \<open>
  \<^verbatim>\<open>
    for src, dest in template_files:
        update_result_from_task(self._run_template_action(src, dest, tmp=tmp, task_vars=task_vars))
        if result["failed"]:
            return result
  \<close>
\<close>

fun render_each ::
  "'w template_remote \<Rightarrow> args \<Rightarrow> (string \<times> string) list \<Rightarrow> 'w template_state
     \<Rightarrow> py_exception + (bool \<times> 'w template_state)" where
  "render_each remote a [] st = Inr (False, st)"
| "render_each remote a (sd # sds) st =
     (case run_template_action a sd of
        Inl e \<Rightarrow> Inl e
      | Inr op \<Rightarrow>
          (case st of (r, tr, w) \<Rightarrow>
            (case execute_op remote op w of (out, w') \<Rightarrow>
               let r' = template_update_result_from_task r out;
                   st' = (r', tr @ [OpEvent op out], w')
               in if failed r' then Inr (True, st') else render_each remote a sds st')))"

text \<open>
  \<open>template_recursive.py\<close>, \<open>ActionModule.run\<close>. When \<open>templates_root\<close> is no string and
  \<open>os.path.isdir\<close> nevertheless answers \<open>True\<close>, \<open>os.walk\<close> raises \<open>TypeError\<close> before any
  remote request.
\<close>

definition template_run ::
  "control_node \<Rightarrow> 'w template_remote \<Rightarrow> args \<Rightarrow> 'w \<Rightarrow> py_exception + 'w template_state" where
  "template_run cn remote task_args w =
     (case map_of task_args ''templates_root'' of
        None \<Rightarrow> Inr (result_failed init_result ''`templates_root` argument is required!'', [], w)
      | Some (Str templates_root) \<Rightarrow>
          if \<not> isdir cn templates_root
          then Inr (result_failed init_result (dq @ templates_root @ dq @ '' is not a directory!''), [], w)
          else
            let a = (if map_of task_args ''mode'' = None
                     then AList.update ''mode'' (Str ''0644'') task_args else task_args);
                files = template_files cn templates_root;
                dest_dirs = map (\<lambda>x. os_path_dirname (snd x)) files
            in (case create_missing_dirs remote a (set_order cn dest_dirs) (init_result, [], w) of
                  (returned, st) \<Rightarrow>
                    if returned then Inr st
                    else and_then (render_each remote a files st) (\<lambda>(returned', st'). Inr st'))
      | Some v \<Rightarrow>
          and_then (isdir_other cn v) (\<lambda>found.
            if \<not> found
            then Inr (result_failed init_result (dq @ fstr cn v @ dq @ '' is not a directory!''), [], w)
            else Inl TypeError))"

section \<open>Notions used to state the properties\<close>

text \<open>A character between two bounds, as a character range of a pattern reads it.\<close>

definition in_char_range :: "char \<Rightarrow> char \<Rightarrow> char \<Rightarrow> bool" where
  "in_char_range lo hi c = ((of_char lo :: nat) \<le> of_char c \<and> (of_char c :: nat) \<le> of_char hi)"

text \<open>A mode as the documentation describes it: a string of four digits between 0 and 7.\<close>

definition valid_mode :: "pyval \<Rightarrow> bool" where
  "valid_mode v = (case v of Str s \<Rightarrow> length s = 4 \<and> list_all (\<lambda>c. c \<in> set ''01234567'') s | _ \<Rightarrow> False)"

text \<open>The mode values an argument dictionary gives: the default mode, \<open>parent_dirs_mode\<close>
  and the keys of \<open>mode_overrides\<close>, as far as they are present.\<close>

definition given_mode_values :: "args \<Rightarrow> pyval list" where
  "given_mode_values a =
     (case map_of a ''mode'' of Some v \<Rightarrow> [v] | None \<Rightarrow> [])
     @ (case map_of a ''parent_dirs_mode'' of Some v \<Rightarrow> [v] | None \<Rightarrow> [])
     @ (case map_of a ''mode_overrides'' of Some (Dict tbl) \<Rightarrow> map fst tbl | _ \<Rightarrow> [])"

text \<open>The argument types of the module documentation: \<open>src_root\<close> is a path string and
  each override table is a dictionary, where the argument is given at all.\<close>

definition is_dict :: "pyval \<Rightarrow> bool" where
  "is_dict v = (case v of Dict d \<Rightarrow> True | _ \<Rightarrow> False)"

definition documented_types :: "args \<Rightarrow> bool" where
  "documented_types a =
     ((case map_of a ''src_root'' of Some v \<Rightarrow> isinstance_str v | None \<Rightarrow> True)
      \<and> list_all (\<lambda>n. case map_of a n of Some v \<Rightarrow> is_dict v | None \<Rightarrow> True) override_arg_names)"

text \<open>
  What a reported diff adds to the result's list, and when a diff is a dictionary whose
  \<open>before\<close> and \<open>after\<close> are both present and equal.
\<close>

definition same_before_after :: "diff_value \<Rightarrow> bool" where
  "same_before_after d =
     (case d of
        DiffDict e \<Rightarrow>
          (case (map_of e ''before'', map_of e ''after'') of
             (Some x, Some y) \<Rightarrow> x = y
           | _ \<Rightarrow> False)
      | DiffList l \<Rightarrow> False)"

definition diff_entries :: "diff_value \<Rightarrow> diff_entry list" where
  "diff_entries d = (case d of DiffList l \<Rightarrow> l | DiffDict e \<Rightarrow> [e])"


definition last_event :: "template_event option \<Rightarrow> template_event list \<Rightarrow> template_event option" where
  "last_event prev es = (if es = [] then prev else Some (last es))"

text \<open>
  A path is rooted when it starts with exactly one \<open>/\<close>: the shape of \<open>/\<close> joined with a
  relative path. \<open>ancestor_of a p\<close> says that \<open>a\<close> is a strict ancestor directory of \<open>p\<close>:
  the parent \<open>dirname p\<close>, or the parent of an ancestor. A list of directories is closed
  when it holds the parent of each of its members.
\<close>

definition rooted :: "string \<Rightarrow> bool" where
  "rooted p = (os_path_isabs p \<and> \<not> startswith p [sep, sep])"

inductive ancestor_of :: "string \<Rightarrow> string \<Rightarrow> bool" where
  parent: "ancestor_of (os_path_dirname p) p"
| further: "ancestor_of a p \<Longrightarrow> ancestor_of (os_path_dirname a) p"

definition closed_dirs :: "string list \<Rightarrow> bool" where
  "closed_dirs ds = (\<forall>d\<in>set ds. os_path_dirname d \<in> set ds)"

text \<open>
  An output reports a failure when its \<open>failed\<close> is the boolean \<open>True\<close>. \<open>accumulate\<close> merges
  the outputs of a list of issued operations into a result, in order. \<open>table_of\<close> reads an
  override table of the arguments, empty when the argument is absent. \<open>op_path\<close> is the
  remote path an operation is about.
\<close>

definition reports_failure :: "task_output \<Rightarrow> bool" where
  "reports_failure t = (out_failed t = Some True)"


definition table_of :: "args \<Rightarrow> string \<Rightarrow> overrides" where
  "table_of a n = (case map_of a n of Some (Dict d) \<Rightarrow> d | _ \<Rightarrow> [])"


text \<open>
  What is left of an override table after normalization: nothing of an empty table,
  otherwise the one entry of its last key with the trailing \<open>/\<close> stripped from each path.
\<close>

definition surviving_entry :: "overrides \<Rightarrow> overrides" where
  "surviving_entry tbl =
     (if tbl = [] then [] else [(fst (last tbl), strip_paths (snd (last tbl)))])"




section \<open>A concrete scenario\<close>

text \<open>
  The scenario of the specification: the source tree \<open>{"a/b/file.txt"}\<close> under
  \<open>src_root = "/local"\<close>, with \<open>owner = root\<close>, \<open>group = root\<close>, \<open>mode = 0644\<close> and
  \<open>parent_dirs_mode = 0755\<close>, on a remote side where every operation succeeds and
  reports a change. It is the concrete input at which the general theorems below are
  instantiated.
\<close>

definition scenario_node :: control_node where
  "scenario_node =
     \<lparr>this_os = ''linux'',
      isdir = (\<lambda>p. p = ''/local''),
      isdir_other = (\<lambda>v. Inr False),
      walk_files = (\<lambda>root. if root = ''/local''
                             then [(''/local/a/b/file.txt'', ''a/b/file.txt'')] else []),
      set_order = remdups,
      fmt = (\<lambda>v. ''?''),
      fmt_type = (\<lambda>v. ''?''),
      fmt_paths = concat\<rparr>"

definition scenario_args :: args where
  "scenario_args =
     [(''owner'', Str ''root''), (''group'', Str ''root''), (''mode'', Str ''0644''),
      (''parent_dirs_mode'', Str ''0755''), (''src_root'', Str ''/local'')]"

definition changed_output :: task_output where
  "changed_output = \<lparr>out_changed = Some True, out_failed = None, out_msg = None, out_diff = None\<rparr>"

definition scenario_remote :: "unit remote" where
  "scenario_remote = (\<lambda>op w. (changed_output, w))"

text \<open>A sub-operation that reports no change and a diff dictionary.\<close>

definition noop_output :: "diff_entry \<Rightarrow> task_output" where
  "noop_output e = \<lparr>out_changed = Some False, out_failed = Some False, out_msg = None,
                     out_diff = Some (DiffDict e)\<rparr>"

text \<open>
  The template scenario of the specification: \<open>config.yml.j2\<close> under the templates root,
  on a remote side where no directory exists yet and every operation succeeds.
\<close>

definition template_node :: control_node where
  "template_node =
     \<lparr>this_os = ''linux'',
      isdir = (\<lambda>p. p = ''/templates''),
      isdir_other = (\<lambda>v. Inr False),
      walk_files = (\<lambda>root. if root = ''/templates''
                             then [(''/templates/etc/config.yml.j2'', ''etc/config.yml.j2'')] else []),
      set_order = remdups,
      fmt = (\<lambda>v. ''?''),
      fmt_type = (\<lambda>v. ''?''),
      fmt_paths = concat\<rparr>"

definition template_remote_absent :: "unit template_remote" where
  "template_remote_absent =
     \<lparr>execute_remote_stat = (\<lambda>p w. ((False, False), w)),
      execute_op = (\<lambda>op w. (changed_output, w))\<rparr>"

text \<open>
  The scenario with a \<open>mode_overrides\<close> table of two entries, the first naming a path that
  is no destination; and the scenario with a source root that holds no file.
\<close>

definition two_entry_args :: args where
  "two_entry_args =
     scenario_args @
       [(''mode_overrides'',
         Dict [(Str ''0600'', [''/not/a/real/path'']), (Str ''0700'', [''/a/''])])]"

definition empty_tree_node :: control_node where
  "empty_tree_node = scenario_node\<lparr>walk_files := (\<lambda>root. [])\<rparr>"

section \<open>Destination paths are absolute\<close>

lemma isabs_join_root: "os_path_isabs (os_path_join [sep] rel)"
  by (cases rel) (auto simp: os_path_isabs_def os_path_join_def startswith_def endswith_def)

text \<open>
  Claim C10. Every destination path that the copy variant's \<open>run\<close> builds is absolute, so
  the assertion at the head of \<open>_get_all_parent_dirs\<close> holds for the list \<open>run\<close> passes
  to it: the call returns the list its loops compute and never raises \<open>AssertionError\<close>.
\<close>

theorem C10_destination_paths_absolute:
  "list_all os_path_isabs (map snd (src_dest_tuples cn src_root))
   \<and> get_all_parent_dirs (map snd (src_dest_tuples cn src_root))
       = Inr (fold parent_dirs_loop (map snd (src_dest_tuples cn src_root)) [])"
proof -
  have "list_all os_path_isabs (map snd (src_dest_tuples cn src_root))"
    by (auto simp: list_all_iff src_dest_tuples_def isabs_join_root)
  then show ?thesis by (simp add: get_all_parent_dirs_def)
qed

section \<open>The mode pattern accepts exactly four octal digits\<close>

lemma consume_range_set:
  "set (re_consume (CharRange lo hi) s) = {cs. \<exists>c. s = c # cs \<and> in_char_range lo hi c}"
  by (cases s) (auto simp: in_char_range_def)

lemma consume_repeat_range:
  "set (((\<lambda>rests. concat (map (re_consume (CharRange lo hi)) rests)) ^^ n) rs)
     = {drop n s | s. s \<in> set rs \<and> n \<le> length s \<and> (\<forall>c\<in>set (take n s). in_char_range lo hi c)}"
proof (induction n)
  case 0
  show ?case by auto
next
  case (Suc n)
  have "set (((\<lambda>rests. concat (map (re_consume (CharRange lo hi)) rests)) ^^ Suc n) rs)
        = (\<Union>r \<in> set (((\<lambda>rests. concat (map (re_consume (CharRange lo hi)) rests)) ^^ n) rs).
             {cs. \<exists>c. r = c # cs \<and> in_char_range lo hi c})"
    by (simp add: consume_range_set)
  also have "\<dots> = (\<Union>r \<in> {drop n s | s. s \<in> set rs \<and> n \<le> length s \<and> (\<forall>c\<in>set (take n s). in_char_range lo hi c)}.
             {cs. \<exists>c. r = c # cs \<and> in_char_range lo hi c})"
    by (simp only: Suc.IH)
  also have "\<dots> = {drop (Suc n) s | s. s \<in> set rs \<and> Suc n \<le> length s \<and> (\<forall>c\<in>set (take (Suc n) s). in_char_range lo hi c)}"
    (is "?L = ?R")
  proof (intro set_eqI iffI)
    fix cs assume "cs \<in> ?L"
    then obtain s c where s: "s \<in> set rs" "n \<le> length s" "\<forall>c\<in>set (take n s). in_char_range lo hi c"
      and d: "drop n s = c # cs" and c: "in_char_range lo hi c"
      by auto
    from d have len: "Suc n \<le> length s"
      by (metis Suc_leI drop_all le_neq_implies_less list.distinct(1) s(2))
    from d have "s ! n = c" by (metis Suc_le_lessD hd_drop_conv_nth len list.sel(1))
    then have tk: "take (Suc n) s = take n s @ [c]"
      using len by (simp add: take_Suc_conv_app_nth)
    have "drop (Suc n) s = cs" using d by (metis drop_Suc list.sel(3) tl_drop)
    have "\<forall>x\<in>set (take (Suc n) s). in_char_range lo hi x"
      using s(3) c tk by auto
    with s(1) len \<open>drop (Suc n) s = cs\<close> show "cs \<in> ?R" by blast
  next
    fix cs assume "cs \<in> ?R"
    then obtain s where s: "s \<in> set rs" "Suc n \<le> length s" "\<forall>c\<in>set (take (Suc n) s). in_char_range lo hi c"
      and cs: "cs = drop (Suc n) s" by auto
    have tk: "take (Suc n) s = take n s @ [s ! n]"
      using s(2) by (simp add: take_Suc_conv_app_nth)
    have d: "drop n s = s ! n # cs" using s(2) cs by (simp add: Cons_nth_drop_Suc)
    have a: "\<forall>c\<in>set (take n s). in_char_range lo hi c" and b: "in_char_range lo hi (s ! n)"
      using s(3) tk by auto
    have "drop n s \<in> {drop n s | s. s \<in> set rs \<and> n \<le> length s \<and> (\<forall>c\<in>set (take n s). in_char_range lo hi c)}"
    proof -
      have "n \<le> length s" using s(2) by simp
      with s(1) a show ?thesis by blast
    qed
    moreover have "cs \<in> {cs. \<exists>c. drop n s = c # cs \<and> in_char_range lo hi c}"
      using d b by blast
    ultimately show "cs \<in> ?L" by blast
  qed
  finally show ?case .
qed

lemma octal_range: "in_char_range (CHR ''0'') (CHR ''7'') c \<longleftrightarrow> c \<in> set ''01234567''"
proof -
  have e: "(c = d) = ((of_char c :: nat) = of_char d)" for d by simp
  have "c \<in> set ''01234567'' \<longleftrightarrow> (of_char c :: nat) \<in> {48, 49, 50, 51, 52, 53, 54, 55}"
    by (simp add: e)
  also have "\<dots> \<longleftrightarrow> 48 \<le> (of_char c :: nat) \<and> (of_char c :: nat) \<le> 55"
    by (simp only: insert_iff empty_iff) arith
  finally show ?thesis by (simp add: in_char_range_def)
qed

lemma fullmatch_mode_regex:
  "re_fullmatch mode_regex s \<longleftrightarrow> length s = 4 \<and> (\<forall>c\<in>set s. c \<in> set ''01234567'')"
proof -
  have "re_fullmatch mode_regex s \<longleftrightarrow>
      [] \<in> {drop 4 x | x. x \<in> set [s] \<and> 4 \<le> length x \<and> (\<forall>c\<in>set (take 4 x). in_char_range (CHR ''0'') (CHR ''7'') c)}"
    unfolding re_fullmatch_def mode_regex_def re_consume.simps consume_repeat_range ..
  also have "\<dots> \<longleftrightarrow> length s = 4 \<and> (\<forall>c\<in>set s. in_char_range (CHR ''0'') (CHR ''7'') c)"
    by auto
  finally show ?thesis by (simp only: octal_range)
qed


lemma check_modes_None: "check_modes cn modes = None \<longleftrightarrow> (\<forall>m\<in>set modes. valid_mode m)"
  by (induction modes)
     (auto simp: valid_mode_def fullmatch_mode_regex list_all_iff split: pyval.splits)

lemma find_required_None:
  "find (\<lambda>arg_name. map_of a arg_name = None) required_args = None \<Longrightarrow>
     \<exists>ow gr m pm sr. map_of a ''owner'' = Some ow \<and> map_of a ''group'' = Some gr \<and> map_of a ''mode'' = Some m
       \<and> map_of a ''parent_dirs_mode'' = Some pm \<and> map_of a ''src_root'' = Some sr"
  by (auto simp: required_args_def split: if_splits)

lemma documented_src_root:
  "documented_types a \<Longrightarrow> map_of a ''src_root'' = Some v \<Longrightarrow> \<exists>root. v = Str root"
  by (auto simp: documented_types_def isinstance_str_def split: pyval.splits)

lemma documented_table:
  "documented_types a \<Longrightarrow> n \<in> set override_arg_names \<Longrightarrow> map_of a n = Some v \<Longrightarrow> \<exists>tbl. v = Dict tbl"
  by (auto simp: documented_types_def is_dict_def list_all_iff split: pyval.splits)

lemma mode_values_given:
  assumes "documented_types a" "map_of a ''mode'' = Some m" "map_of a ''parent_dirs_mode'' = Some pm"
  shows "mode_values a = Inr (given_mode_values a)"
proof (cases "map_of a ''mode_overrides''")
  case None
  with assms show ?thesis
    by (simp add: mode_values_def given_mode_values_def and_then_def getitem_def)
next
  case (Some v)
  then obtain tbl where "v = Dict tbl"
    using documented_table [OF assms(1), of "''mode_overrides''" v] by (auto simp: override_arg_names_def)
  with Some assms show ?thesis
    by (simp add: mode_values_def given_mode_values_def and_then_def getitem_def dict_items_def)
qed

lemma validate_rejects_bad_mode:
  assumes ty: "documented_types a" and bad: "\<exists>v\<in>set (given_mode_values a). \<not> valid_mode v"
  shows "\<exists>m. r_copy_validate cn a = Inr (Some m)"
proof (cases "this_os cn \<in> set SUPPORTED_OS")
  case False
  then show ?thesis by (simp add: r_copy_validate_def)
next
  case os: True
  show ?thesis
  proof (cases "find (\<lambda>arg_name. map_of a arg_name = None) required_args")
    case (Some n)
    with os show ?thesis by (simp add: r_copy_validate_def)
  next
    case req: None
    then obtain m pm sr where m: "map_of a ''mode'' = Some m" and pm: "map_of a ''parent_dirs_mode'' = Some pm"
      and sr: "map_of a ''src_root'' = Some sr"
      using find_required_None by blast
    obtain root where root: "sr = Str root" using documented_src_root [OF ty sr] by blast
    show ?thesis
    proof (cases "find (\<lambda>arg_name. arg_name \<notin> set supported_args) (map fst a)")
      case (Some n)
      with os req show ?thesis by (simp add: r_copy_validate_def)
    next
      case sup: None
      show ?thesis
      proof (cases "isdir cn root")
        case False
        with os req sup sr root show ?thesis
          by (simp add: r_copy_validate_def and_then_def getitem_def)
      next
        case True
        have "check_modes cn (given_mode_values a) \<noteq> None"
          using bad check_modes_None by blast
        then obtain msg where "check_modes cn (given_mode_values a) = Some msg" by blast
        with True os req sup sr root mode_values_given [OF ty m pm] show ?thesis
          by (simp add: r_copy_validate_def and_then_def getitem_def)
      qed
    qed
  qed
qed

lemma run_of_rejected:
  "r_copy_validate cn a = Inr (Some m) \<Longrightarrow> r_copy_run cn remote a w = Inr (result_failed init_result m, [], w)"
  by (simp add: r_copy_run_def r_copy_prepare_def and_then_def)

text \<open>
  Claim C4. The mode loop of the copy variant lets a list of mode values pass if and
  only if each of them is a string of exactly four characters between \<open>0\<close> and \<open>7\<close>. When
  the arguments have the documented types and any mode value among the default mode,
  \<open>parent_dirs_mode\<close> and the keys of \<open>mode_overrides\<close> is anything else, \<open>run\<close> returns
  \<open>failed = True\<close> with a message, having issued no remote operation.
\<close>

theorem C4_mode_validation:
  "(check_modes cn modes = None \<longleftrightarrow> (\<forall>m\<in>set modes. valid_mode m))
   \<and> (documented_types a \<longrightarrow> (\<exists>v\<in>set (given_mode_values a). \<not> valid_mode v) \<longrightarrow>
        (\<exists>m. r_copy_run cn remote a w = Inr (result_failed init_result m, [], w)))"
proof (intro conjI impI)
  show "check_modes cn modes = None \<longleftrightarrow> (\<forall>m\<in>set modes. valid_mode m)"
    by (rule check_modes_None)
next
  assume "documented_types a" and "\<exists>v\<in>set (given_mode_values a). \<not> valid_mode v"
  then obtain m where "r_copy_validate cn a = Inr (Some m)"
    using validate_rejects_bad_mode by blast
  then have "r_copy_run cn remote a w = Inr (result_failed init_result m, [], w)"
    by (rule run_of_rejected)
  then show "\<exists>m. r_copy_run cn remote a w = Inr (result_failed init_result m, [], w)" ..
qed


theorem C4_mode_validation_witness:
  "check_modes scenario_node [Str ''0755''] = None
   \<and> check_modes scenario_node [Str ''755''] \<noteq> None
   \<and> check_modes scenario_node [Str ''075a''] \<noteq> None
   \<and> check_modes scenario_node [Str ''07555''] \<noteq> None
   \<and> check_modes scenario_node [NonStr 755] \<noteq> None
   \<and> (\<exists>m. r_copy_run scenario_node scenario_remote
              (AList.update ''mode'' (Str ''755'') scenario_args) ()
            = Inr (result_failed init_result m, [], ()))"
proof -
  have ty: "documented_types (AList.update ''mode'' (Str ''755'') scenario_args)"
    by (simp add: documented_types_def scenario_args_def override_arg_names_def isinstance_str_def)
  have bad: "\<exists>v\<in>set (given_mode_values (AList.update ''mode'' (Str ''755'') scenario_args)). \<not> valid_mode v"
    by (simp add: given_mode_values_def scenario_args_def valid_mode_def)
  have run: "\<exists>m. r_copy_run scenario_node scenario_remote
              (AList.update ''mode'' (Str ''755'') scenario_args) ()
            = Inr (result_failed init_result m, [], ())"
    using C4_mode_validation [of scenario_node "[]" "AList.update ''mode'' (Str ''755'') scenario_args"
        scenario_remote "()"] ty bad by blast
  have "check_modes scenario_node [Str ''0755''] = None"
    using C4_mode_validation [of scenario_node "[Str ''0755'']" "[]" scenario_remote "()"]
    by (simp add: valid_mode_def)
  moreover have "check_modes scenario_node [Str ''755''] \<noteq> None"
    using C4_mode_validation [of scenario_node "[Str ''755'']" "[]" scenario_remote "()"]
    by (simp add: valid_mode_def)
  moreover have "check_modes scenario_node [Str ''075a''] \<noteq> None"
    using C4_mode_validation [of scenario_node "[Str ''075a'']" "[]" scenario_remote "()"]
    by (simp add: valid_mode_def)
  moreover have "check_modes scenario_node [Str ''07555''] \<noteq> None"
    using C4_mode_validation [of scenario_node "[Str ''07555'']" "[]" scenario_remote "()"]
    by (simp add: valid_mode_def)
  moreover have "check_modes scenario_node [NonStr 755] \<noteq> None"
    using C4_mode_validation [of scenario_node "[NonStr 755]" "[]" scenario_remote "()"]
    by (simp add: valid_mode_def)
  ultimately show ?thesis using run by blast
qed

section \<open>Result aggregation: which diffs are recorded\<close>

lemma flags_keep_diff: "diff (update_flags_and_msg r t) = diff r"
  by (simp add: update_flags_and_msg_def Let_def split: option.splits)

lemma do_save_diff_iff:
  "do_save_diff t = (case out_diff t of None \<Rightarrow> False
                     | Some d \<Rightarrow> out_changed t = Some True \<or> \<not> same_before_after d)"
proof (cases "out_diff t")
  case None
  then show ?thesis by (simp add: do_save_diff_def)
next
  case (Some d)
  show ?thesis
  proof (cases d)
    case (DiffList l)
    with Some show ?thesis
      by (simp add: do_save_diff_def same_before_after_def diff_contains_def)
  next
    case (DiffDict e)
    show ?thesis
    proof (cases "map_of e ''before''")
      case None
      with Some DiffDict show ?thesis
        by (simp add: do_save_diff_def same_before_after_def diff_contains_def)
    next
      case b: (Some x)
      show ?thesis
      proof (cases "map_of e ''after''")
        case None
        with Some DiffDict b show ?thesis
          by (simp add: do_save_diff_def same_before_after_def diff_contains_def)
      next
        case (Some y)
        with \<open>out_diff t = Some d\<close> DiffDict b show ?thesis
          by (simp add: do_save_diff_def same_before_after_def diff_contains_def diff_get_def)
      qed
    qed
  qed
qed

lemma add_diff_entries: "diff (add_diff r d) = diff r @ diff_entries d"
  by (simp add: add_diff_def diff_entries_def split: diff_value.splits)

text \<open>
  Claim C8, as amended. In the copy variant a sub-operation's diff is added to the
  result's diff list exactly when the output has a diff and either reports
  \<open>changed = True\<close> or its diff is not a dictionary holding equal \<open>before\<close> and \<open>after\<close>
  values; so an output that reports no change and equal \<open>before\<close> and \<open>after\<close> adds
  nothing. The template variant adds every reported diff. A list of diffs is
  concatenated, a single diff is appended.
\<close>

theorem C8_diff_aggregation:
  "diff (r_copy_update_result_from_task r t) =
     (case out_diff t of
        None \<Rightarrow> diff r
      | Some d \<Rightarrow> if out_changed t = Some True \<or> \<not> same_before_after d
                  then diff r @ diff_entries d else diff r)
   \<and> diff (template_update_result_from_task r t) =
     (case out_diff t of None \<Rightarrow> diff r | Some d \<Rightarrow> diff r @ diff_entries d)"
  by (simp add: r_copy_update_result_from_task_def template_update_result_from_task_def
        do_save_diff_iff add_diff_entries flags_keep_diff Let_def split: option.splits)

theorem C8_diff_aggregation_witness:
  "diff (r_copy_update_result_from_task init_result
           (noop_output [(''before'', ''x''), (''after'', ''x'')])) = []
   \<and> diff (r_copy_update_result_from_task init_result
           (noop_output [(''before'', ''x''), (''after'', ''y'')]))
       = [[(''before'', ''x''), (''after'', ''y'')]]"
  using C8_diff_aggregation [of init_result "noop_output [(''before'', ''x''), (''after'', ''x'')]"]
        C8_diff_aggregation [of init_result "noop_output [(''before'', ''x''), (''after'', ''y'')]"]
  by (simp add: noop_output_def same_before_after_def diff_entries_def init_result_def)

text \<open>
  The claim as stated fails twice: the template variant records the diff of an output
  that reports no change and identical \<open>before\<close> and \<open>after\<close>; the copy variant records
  the diff of an unchanged output whose diff has no \<open>before\<close> and \<open>after\<close> at all.
\<close>

theorem C8_counterexample:
  "diff (template_update_result_from_task init_result
           (noop_output [(''before'', ''x''), (''after'', ''x'')]))
     = [[(''before'', ''x''), (''after'', ''x'')]]
   \<and> diff (r_copy_update_result_from_task init_result (noop_output [(''prepared'', ''x'')]))
     = [[(''prepared'', ''x'')]]"
  by (simp add: template_update_result_from_task_def r_copy_update_result_from_task_def
        update_flags_and_msg_def add_diff_def do_save_diff_def diff_contains_def diff_get_def
        noop_output_def init_result_def)

section \<open>The ancestor directories and their order\<close>

lemma rooted_iff: "rooted p \<longleftrightarrow> (\<exists>r. p = sep # r \<and> (r = [] \<or> hd r \<noteq> sep))"
  by (cases p; cases "tl p") (auto simp: rooted_def os_path_isabs_def startswith_def)

lemma rooted_join: "\<not> os_path_isabs rel \<Longrightarrow> rooted (os_path_join [sep] rel)"
  by (cases rel) (auto simp: rooted_iff os_path_isabs_def os_path_join_def startswith_def endswith_def)

lemma rooted_take: "rooted p \<Longrightarrow> 0 < m \<Longrightarrow> rooted (take m p)"
  by (cases m; cases "m - 1") (auto simp: rooted_iff take_Cons' hd_take)

lemma rfind_bounds: "- 1 \<le> rfind p c \<and> rfind p c < int (length p)"
  by (induction p) (auto simp: Let_def)

lemma rfind_nonneg_iff: "0 \<le> rfind p c \<longleftrightarrow> c \<in> set p"
  using rfind_bounds [of _ c] by (induction p) (auto simp: Let_def)

lemma rfind_nth: "c \<in> set p \<Longrightarrow> p ! nat (rfind p c) = c"
proof (induction p)
  case Nil then show ?case by simp
next
  case (Cons x xs)
  show ?case
  proof (cases "c \<in> set xs")
    case True
    then have "0 \<le> rfind xs c" by (simp add: rfind_nonneg_iff)
    then show ?thesis using Cons.IH True by (simp add: Let_def nat_add_distrib)
  next
    case False
    then have "\<not> 0 \<le> rfind xs c" by (simp add: rfind_nonneg_iff)
    then show ?thesis using Cons.prems False by (simp add: Let_def)
  qed
qed

lemma head_props:
  assumes "c \<in> set p"
  defines "h \<equiv> take (nat (rfind p c + 1)) p"
  shows "h \<noteq> []" "last h = c" "length h \<le> length p"
proof -
  have nn: "0 \<le> rfind p c" using assms(1) by (simp add: rfind_nonneg_iff)
  have lt: "nat (rfind p c) < length p" using rfind_bounds [of p c] nn by linarith
  have n: "nat (rfind p c + 1) = Suc (nat (rfind p c))" using nn by linarith
  have h: "h = take (nat (rfind p c)) p @ [c]"
    unfolding h_def n using lt rfind_nth [OF assms(1)] by (simp add: take_Suc_conv_app_nth)
  show "h \<noteq> []" "last h = c" using h by simp_all
  show "length h \<le> length p" by (simp add: h_def)
qed

lemma head_empty: "c \<notin> set p \<Longrightarrow> take (nat (rfind p c + 1)) p = []"
  using rfind_nonneg_iff [of p c] rfind_bounds [of p c] by auto

lemma rstrip_shorter: "s \<noteq> [] \<Longrightarrow> last s \<in> set cs \<Longrightarrow> length (rstrip s cs) < length s"
proof (cases s rule: rev_cases)
  case Nil
  assume "s \<noteq> []"
  with Nil show ?thesis by simp
next
  case (snoc b x)
  assume "last s \<in> set cs"
  then have "x \<in> set cs" using snoc by simp
  then have "rstrip s cs = rev (dropWhile (\<lambda>c. c \<in> set cs) (rev b))"
    using snoc by (simp add: rstrip_def)
  then have "length (rstrip s cs) \<le> length b"
    by (metis length_dropWhile_le length_rev)
  then show ?thesis using snoc by simp
qed

lemma rstrip_keeps: "x \<in> set s \<Longrightarrow> x \<notin> set cs \<Longrightarrow> x \<in> set (rstrip s cs)"
proof -
  assume a: "x \<in> set s" "x \<notin> set cs"
  have "set (rev s) = set (takeWhile (\<lambda>c. c \<in> set cs) (rev s)) \<union> set (dropWhile (\<lambda>c. c \<in> set cs) (rev s))"
    by (metis set_append takeWhile_dropWhile_id)
  moreover have "x \<notin> set (takeWhile (\<lambda>c. c \<in> set cs) (rev s))"
    using a(2) by (meson set_takeWhileD)
  ultimately show ?thesis using a(1) by (simp add: rstrip_def)
qed

lemma dirname_root: "os_path_dirname [sep] = [sep]"
  by (simp add: os_path_dirname_def Let_def)

lemma dirname_nonempty: "sep \<in> set p \<Longrightarrow> os_path_dirname p \<noteq> []"
proof -
  assume a: "sep \<in> set p"
  define h where "h = take (nat (rfind p sep + 1)) p"
  have h: "h \<noteq> []" using head_props(1) [OF a] by (simp add: h_def)
  have d: "os_path_dirname p = (if h \<noteq> [] \<and> h \<noteq> replicate (length h) sep then rstrip h [sep] else h)"
    unfolding os_path_dirname_def Let_def h_def by (rule refl)
  show ?thesis
  proof (cases "h = replicate (length h) sep")
    case True
    then show ?thesis using h d by simp
  next
    case False
    then obtain x where "x \<in> set h" "x \<noteq> sep"
      by (metis replicate_eqI)
    then have "x \<in> set (rstrip h [sep])" by (simp add: rstrip_keeps)
    then have "rstrip h [sep] \<noteq> []" by auto
    then show ?thesis using False h d by simp
  qed
qed

lemma rooted_dirname: "rooted p \<Longrightarrow> rooted (os_path_dirname p)"
proof -
  assume r: "rooted p"
  then have "sep \<in> set p" by (auto simp: rooted_iff)
  then have ne: "os_path_dirname p \<noteq> []" by (rule dirname_nonempty)
  obtain m where m: "os_path_dirname p = take m p" using dirname_is_take by blast
  with ne have "0 < m" by (cases m) auto
  with r m show ?thesis by (simp add: rooted_take)
qed

lemma rooted_dirname_shorter:
  assumes r: "rooted p" and nr: "p \<noteq> [sep]"
  shows "length (os_path_dirname p) < length p"
proof -
  obtain t where p: "p = sep # t" "t \<noteq> []" "hd t \<noteq> sep"
    using r nr by (auto simp: rooted_iff)
  have a: "sep \<in> set p" using p by simp
  define h where "h = take (nat (rfind p sep + 1)) p"
  have h: "h \<noteq> []" "last h = sep" "length h \<le> length p"
    using head_props [OF a] by (simp_all add: h_def)
  have dn: "os_path_dirname p = (if h \<noteq> [] \<and> h \<noteq> replicate (length h) sep then rstrip h [sep] else h)"
    unfolding os_path_dirname_def Let_def h_def by (rule refl)
  show ?thesis
  proof (cases "h = replicate (length h) sep")
    case True
    then have d: "os_path_dirname p = h" using dn by simp
    have "length h < 2"
    proof (rule ccontr)
      assume "\<not> length h < 2"
      then have l: "1 < length h" by simp
      then have "h ! 1 = sep" using True by (metis nth_replicate)
      moreover have "h ! 1 = p ! 1" using l by (simp add: h_def)
      ultimately show False using p by (cases t) auto
    qed
    then show ?thesis using d p by (cases t) auto
  next
    case False
    then have "os_path_dirname p = rstrip h [sep]"
      using h dn by simp
    moreover have "length (rstrip h [sep]) < length h"
      using h by (simp add: rstrip_shorter)
    ultimately show ?thesis using h(3) by simp
  qed
qed


lemma ancestor_of_step: "ancestor_of a c \<longleftrightarrow> a = os_path_dirname c \<or> ancestor_of a (os_path_dirname c)"
proof
  assume "ancestor_of a c"
  then show "a = os_path_dirname c \<or> ancestor_of a (os_path_dirname c)"
    by (induction rule: ancestor_of.induct) (auto intro: ancestor_of.intros)
next
  assume "a = os_path_dirname c \<or> ancestor_of a (os_path_dirname c)"
  then show "ancestor_of a c"
  proof
    assume "a = os_path_dirname c"
    then show ?thesis by (simp add: ancestor_of.parent)
  next
    assume "ancestor_of a (os_path_dirname c)"
    then show ?thesis
      by (induction a "os_path_dirname c" rule: ancestor_of.induct) (auto intro: ancestor_of.intros)
  qed
qed

lemma ancestors_in_closed:
  "ancestor_of a c \<Longrightarrow> closed_dirs ds \<Longrightarrow> os_path_dirname c \<in> set ds \<Longrightarrow> a \<in> set ds"
  by (induction rule: ancestor_of.induct) (auto simp: closed_dirs_def)

lemma parent_dirs_loop_props:
  "\<forall>d\<in>set acc. d \<noteq> cursor \<longrightarrow> os_path_dirname d \<in> set acc \<Longrightarrow> distinct acc \<Longrightarrow>
     distinct (parent_dirs_loop cursor acc) \<and> closed_dirs (parent_dirs_loop cursor acc)
     \<and> set (parent_dirs_loop cursor acc) = set acc \<union> {a. ancestor_of a cursor}"
proof (induction cursor acc rule: parent_dirs_loop.induct)
  case (1 cursor acc)
  show ?case
  proof (cases "os_path_dirname cursor \<in> set acc")
    case True
    then have res: "parent_dirs_loop cursor acc = acc"
      by (simp add: parent_dirs_loop.simps [of cursor acc] Let_def)
    have cl: "closed_dirs acc"
      unfolding closed_dirs_def using "1.prems"(1) True by metis
    have "{a. ancestor_of a cursor} \<subseteq> set acc"
      using ancestors_in_closed [OF _ cl True] by blast
    with res cl "1.prems"(2) show ?thesis by auto
  next
    case False
    define d where "d = os_path_dirname cursor"
    have res: "parent_dirs_loop cursor acc = parent_dirs_loop d (acc @ [d])"
      using False by (simp add: parent_dirs_loop.simps [of cursor acc] d_def Let_def)
    have p1: "\<forall>x\<in>set (acc @ [d]). x \<noteq> d \<longrightarrow> os_path_dirname x \<in> set (acc @ [d])"
      using "1.prems"(1) d_def by auto
    have p2: "distinct (acc @ [d])" using "1.prems"(2) False d_def by simp
    have ih: "distinct (parent_dirs_loop d (acc @ [d])) \<and> closed_dirs (parent_dirs_loop d (acc @ [d]))
       \<and> set (parent_dirs_loop d (acc @ [d])) = set (acc @ [d]) \<union> {a. ancestor_of a d}"
    proof (rule "1.IH" [OF d_def _ p1 p2])
      show "d \<notin> set acc" using False d_def by simp
    qed
    have "{a. ancestor_of a cursor} = {d} \<union> {a. ancestor_of a d}"
      using ancestor_of_step [of _ cursor] d_def by auto
    with ih res show ?thesis by auto
  qed
qed


lemma fold_parent_dirs_props:
  "closed_dirs acc \<Longrightarrow> distinct acc \<Longrightarrow>
     distinct (fold parent_dirs_loop paths acc) \<and> closed_dirs (fold parent_dirs_loop paths acc)
     \<and> set (fold parent_dirs_loop paths acc) = set acc \<union> {a. \<exists>p\<in>set paths. ancestor_of a p}"
proof (induction paths arbitrary: acc)
  case Nil
  then show ?case by simp
next
  case (Cons p paths)
  have pre: "\<forall>d\<in>set acc. d \<noteq> p \<longrightarrow> os_path_dirname d \<in> set acc"
    using Cons.prems(1) by (simp add: closed_dirs_def)
  note step = parent_dirs_loop_props [OF pre Cons.prems(2)]
  have "distinct (fold parent_dirs_loop paths (parent_dirs_loop p acc))
     \<and> closed_dirs (fold parent_dirs_loop paths (parent_dirs_loop p acc))
     \<and> set (fold parent_dirs_loop paths (parent_dirs_loop p acc))
         = set (parent_dirs_loop p acc) \<union> {a. \<exists>p\<in>set paths. ancestor_of a p}"
    using Cons.IH step by blast
  with step show ?case by auto
qed

lemma rooted_ancestor:
  "ancestor_of a p \<Longrightarrow> rooted p \<Longrightarrow> rooted a \<and> (a = [sep] \<or> length a < length p)"
proof (induction rule: ancestor_of.induct)
  case (parent p)
  then show ?case
    using rooted_dirname [of p] rooted_dirname_shorter [of p] dirname_root by (cases "p = [sep]") auto
next
  case (further a p)
  then have a: "rooted a" "a = [sep] \<or> length a < length p" by simp_all
  show ?case
  proof (cases "a = [sep]")
    case True
    then show ?thesis using a(1) by (simp add: dirname_root)
  next
    case False
    then have "length (os_path_dirname a) < length p"
      using a dirname_length_le [of a] by simp
    then show ?thesis using a(1) by (simp add: rooted_dirname)
  qed
qed

lemma root_is_ancestor: "rooted p \<Longrightarrow> ancestor_of [sep] p"
proof (induction "length p" arbitrary: p rule: less_induct)
  case less
  show ?case
  proof (cases "p = [sep]")
    case True
    then show ?thesis using ancestor_of.parent [of p] by (simp add: dirname_root)
  next
    case False
    then have "length (os_path_dirname p) < length p"
      using less.prems by (rule rooted_dirname_shorter [rotated])
    then have "ancestor_of [sep] (os_path_dirname p)"
      using less.hyps less.prems rooted_dirname by blast
    then show ?thesis using ancestor_of_step by blast
  qed
qed

lemma rooted_isabs: "rooted p \<Longrightarrow> os_path_isabs p"
  by (simp add: rooted_def)

lemma sorted_by_length_earlier:
  assumes "sorted (map length ds)" "i < length ds" "j < length ds" "length (ds ! j) < length (ds ! i)"
  shows "j < i"
proof (rule ccontr)
  assume "\<not> j < i"
  then have "i \<le> j" by simp
  then have "map length ds ! i \<le> map length ds ! j"
    using sorted_nth_mono [of "map length ds" i j] assms(1) assms(3) by simp
  then show False using assms by simp
qed

text \<open>
  Claim C3. For a non-empty list of destination file paths, each \<open>/\<close> joined with a
  relative path, the directory list of \<open>run\<close> (the parents collected by
  \<open>_get_all_parent_dirs\<close>, sorted by length, with \<open>/\<close> removed) is computed without an
  exception, has no repetition, consists of exactly the strict ancestor directories of
  the files other than the root \<open>/\<close>, is sorted by path length ascending, and holds every
  ancestor (other than the root) of each of its directories at an earlier position.
\<close>

theorem C3_ancestor_directories:
  assumes nonempty: "paths \<noteq> []"
    and dest: "\<forall>p\<in>set paths. \<exists>rel. \<not> os_path_isabs rel \<and> p = os_path_join [sep] rel"
  shows "\<exists>dirs. destination_dirs paths = Inr dirs
           \<and> distinct dirs
           \<and> set dirs = {a. \<exists>p\<in>set paths. ancestor_of a p} - {[sep]}
           \<and> [sep] \<notin> set dirs
           \<and> sorted (map length dirs)
           \<and> (\<forall>i<length dirs. \<forall>a. ancestor_of a (dirs ! i) \<and> a \<noteq> [sep] \<longrightarrow> (\<exists>j<i. dirs ! j = a))"
proof -
  have rooted_paths: "rooted p" if mem: "p \<in> set paths" for p
  proof -
    obtain rel where "\<not> os_path_isabs rel" "p = os_path_join [sep] rel"
      using dest mem by auto
    then show ?thesis by (simp add: rooted_join)
  qed
  define out where "out = fold parent_dirs_loop paths []"
  have abs: "list_all os_path_isabs paths"
    using rooted_paths by (simp add: list_all_iff rooted_isabs)
  then have g: "get_all_parent_dirs paths = Inr out"
    by (simp add: get_all_parent_dirs_def out_def)
  have props: "distinct out" "closed_dirs out" "set out = {a. \<exists>p\<in>set paths. ancestor_of a p}"
  proof -
    have e: "closed_dirs []" by (simp add: closed_dirs_def)
    note f = fold_parent_dirs_props [OF e, of paths, folded out_def]
    show "distinct out" "closed_dirs out" "set out = {a. \<exists>p\<in>set paths. ancestor_of a p}"
      using f by simp_all
  qed
  obtain p0 where p0: "p0 \<in> set paths" using nonempty by (cases paths) auto
  then have "ancestor_of [sep] p0" by (simp add: rooted_paths root_is_ancestor)
  with p0 have root_in: "[sep] \<in> set out"
    unfolding props(3) by (intro CollectI bexI [of _ p0])
  define dirs where "dirs = remove1 [sep] (sort_key length out)"
  have d: "destination_dirs paths = Inr dirs"
    using g root_in by (simp add: destination_dirs_def and_then_def dirs_def Let_def)
  have dist: "distinct dirs" using props(1) by (simp add: dirs_def)
  have set_dirs: "set dirs = set out - {[sep]}" using props(1) by (simp add: dirs_def)
  have srt: "sorted (map length dirs)"
    unfolding dirs_def by (rule sorted_map_remove1) (rule sorted_sort_key)
  have order: "\<exists>j<i. dirs ! j = a"
    if i: "i < length dirs" and a: "ancestor_of a (dirs ! i)" "a \<noteq> [sep]" for i a
  proof -
    have di: "dirs ! i \<in> set out" using i set_dirs by (metis DiffD1 nth_mem)
    then obtain p where p: "p \<in> set paths" "ancestor_of (dirs ! i) p"
      unfolding props(3) by auto
    have rd: "rooted (dirs ! i)"
      using rooted_ancestor [OF p(2) rooted_paths [OF p(1)]] by simp
    have "os_path_dirname (dirs ! i) \<in> set out" using di props(2) by (simp add: closed_dirs_def)
    then have "a \<in> set out" by (rule ancestors_in_closed [OF a(1) props(2)])
    then have "a \<in> set dirs" using a(2) set_dirs by simp
    then obtain j where j: "j < length dirs" "dirs ! j = a" by (metis in_set_conv_nth)
    have "length a < length (dirs ! i)" using rooted_ancestor [OF a(1) rd] a(2) by simp
    then have "j < i" using sorted_by_length_earlier [OF srt i j(1)] j(2) by simp
    with j(2) show ?thesis by auto
  qed
  have no_root: "[sep] \<notin> set dirs" using set_dirs by simp
  have set_eq: "set dirs = {a. \<exists>p\<in>set paths. ancestor_of a p} - {[sep]}"
    using set_dirs props(3) by simp
  have ord: "\<forall>i<length dirs. \<forall>a. ancestor_of a (dirs ! i) \<and> a \<noteq> [sep] \<longrightarrow> (\<exists>j<i. dirs ! j = a)"
    using order by simp
  show ?thesis
    by (rule exI [of _ dirs]) (intro conjI d dist set_eq no_root srt ord)
qed

theorem C3_ancestor_directories_witness:
  "[''/a/b/file.txt''] \<noteq> []
   \<and> \<not> os_path_isabs ''a/b/file.txt''
   \<and> ''/a/b/file.txt'' = os_path_join [sep] ''a/b/file.txt''
   \<and> destination_dirs [''/a/b/file.txt''] = Inr [''/a'', ''/a/b'']
   \<and> set [''/a'', ''/a/b''] = {a. \<exists>p\<in>set [''/a/b/file.txt'']. ancestor_of a p} - {[sep]}"
proof -
  have rel: "\<not> os_path_isabs ''a/b/file.txt''"
    by (simp add: os_path_isabs_def startswith_def sep_def)
  have joined: "''/a/b/file.txt'' = os_path_join [sep] ''a/b/file.txt''"
    by (simp add: os_path_join_def startswith_def endswith_def sep_def)
  have dest: "\<forall>p\<in>set [''/a/b/file.txt'']. \<exists>rel. \<not> os_path_isabs rel \<and> p = os_path_join [sep] rel"
    using rel joined by auto
  have run: "destination_dirs [''/a/b/file.txt''] = Inr [''/a'', ''/a/b'']"
    by code_simp
  obtain dirs where dirs: "destination_dirs [''/a/b/file.txt''] = Inr dirs"
      "set dirs = {a. \<exists>p\<in>set [''/a/b/file.txt'']. ancestor_of a p} - {[sep]}"
    using C3_ancestor_directories [OF _ dest] by auto
  from dirs(1) run have "dirs = [''/a'', ''/a/b'']" by simp
  with dirs(2) rel joined run show ?thesis by simp
qed

section \<open>The driver: order of operations and abort on the first failure\<close>

lemma failed_add_diff: "failed (add_diff r d) = failed r"
  by (simp add: add_diff_def split: diff_value.splits)

lemma failed_flags: "failed (update_flags_and_msg r t) = (failed r \<or> reports_failure t)"
  by (simp add: update_flags_and_msg_def reports_failure_def Let_def split: option.splits)






lemma map_of_default_tables:
  "map_of (default_tables a) k =
     (if k \<in> set override_arg_names \<and> map_of a k = None then Some (Dict []) else map_of a k)"
  by (simp add: default_tables_def override_arg_names_def update_conv')

lemma normalize_arg_Inr:
  assumes "normalize_arg n a = Inr a'"
  shows "\<exists>tbl. map_of a n = Some (Dict tbl) \<and> map_of a' = (map_of a)(n \<mapsto> Dict (normalize_table tbl tbl))"
proof -
  from assms obtain v where v: "map_of a n = Some v"
    by (cases "map_of a n") (auto simp: normalize_arg_def and_then_def getitem_def)
  with assms obtain tbl where tbl: "v = Dict tbl"
    by (cases v) (auto simp: normalize_arg_def and_then_def getitem_def dict_items_def)
  with assms v have "a' = AList.update n (Dict (normalize_table tbl tbl)) a"
    by (simp add: normalize_arg_def and_then_def getitem_def dict_items_def)
  with v tbl show ?thesis by (simp add: update_conv')
qed

lemma normalize_overrides_Inr:
  assumes "normalize_overrides a = Inr a'"
  shows "(\<forall>n\<in>set override_arg_names.
            map_of a' n = Some (Dict (normalize_table (table_of a n) (table_of a n))))
         \<and> (\<forall>k. k \<notin> set override_arg_names \<longrightarrow> map_of a' k = map_of a k)"
proof -
  from assms obtain a1 where a1: "normalize_arg ''mode_overrides'' (default_tables a) = Inr a1"
    by (cases "normalize_arg ''mode_overrides'' (default_tables a)")
       (auto simp: normalize_overrides_def and_then_def)
  with assms obtain a2 where a2: "normalize_arg ''owner_overrides'' a1 = Inr a2"
    by (cases "normalize_arg ''owner_overrides'' a1")
       (auto simp: normalize_overrides_def and_then_def)
  with assms a1 have a3: "normalize_arg ''group_overrides'' a2 = Inr a'"
    by (simp add: normalize_overrides_def and_then_def)
  obtain t1 where t1: "map_of (default_tables a) ''mode_overrides'' = Some (Dict t1)"
      "map_of a1 = (map_of (default_tables a))(''mode_overrides'' \<mapsto> Dict (normalize_table t1 t1))"
    using normalize_arg_Inr [OF a1] by blast
  obtain t2 where t2: "map_of a1 ''owner_overrides'' = Some (Dict t2)"
      "map_of a2 = (map_of a1)(''owner_overrides'' \<mapsto> Dict (normalize_table t2 t2))"
    using normalize_arg_Inr [OF a2] by blast
  obtain t3 where t3: "map_of a2 ''group_overrides'' = Some (Dict t3)"
      "map_of a' = (map_of a2)(''group_overrides'' \<mapsto> Dict (normalize_table t3 t3))"
    using normalize_arg_Inr [OF a3] by blast
  have e1: "t1 = table_of a ''mode_overrides''"
    using t1(1) by (auto simp: map_of_default_tables table_of_def override_arg_names_def split: if_splits)
  have e2: "t2 = table_of a ''owner_overrides''"
    using t2(1) t1(2) by (auto simp: map_of_default_tables table_of_def override_arg_names_def split: if_splits)
  have e3: "t3 = table_of a ''group_overrides''"
    using t3(1) t2(2) t1(2) by (auto simp: map_of_default_tables table_of_def override_arg_names_def split: if_splits)
  have m: "map_of a' = (map_of (default_tables a))
      (''mode_overrides'' \<mapsto> Dict (normalize_table t1 t1),
       ''owner_overrides'' \<mapsto> Dict (normalize_table t2 t2),
       ''group_overrides'' \<mapsto> Dict (normalize_table t3 t3))"
    using t1(2) t2(2) t3(2) by simp
  show ?thesis
    unfolding m e1 e2 e3 by (simp add: override_arg_names_def map_of_default_tables)
qed


lemma lookup_override_ok:
  "map_of a n = Some (Dict tbl) \<Longrightarrow> lookup_override a n p = Inr (first_override tbl p)"
  by (simp add: lookup_override_def and_then_def getitem_def dict_items_def)
















section \<open>Normalization keeps the last entry of each override table\<close>

lemma normalize_table_fold:
  "normalize_table items cur = (if items = [] then cur else surviving_entry items)"
proof (induction items rule: rev_induct)
  case Nil
  then show ?case by (simp add: normalize_table_def)
next
  case (snoc x xs)
  then show ?case by (cases x) (simp add: normalize_table_def surviving_entry_def)
qed

lemma normalize_table_last: "normalize_table tbl tbl = surviving_entry tbl"
  by (simp add: normalize_table_fold surviving_entry_def)

lemma rstrip_no_trailing: "rstrip s cs = [] \<or> last (rstrip s cs) \<notin> set cs"
proof (cases "dropWhile (\<lambda>c. c \<in> set cs) (rev s)")
  case Nil
  then show ?thesis by (simp add: rstrip_def)
next
  case (Cons y ys)
  then have "y \<notin> set cs" by (metis hd_dropWhile list.sel(1) list.distinct(1))
  with Cons show ?thesis by (simp add: rstrip_def)
qed

lemma strip_paths_no_trailing: "p \<in> set (strip_paths ps) \<Longrightarrow> p = [] \<or> last p \<noteq> sep"
  using rstrip_no_trailing [of _ "[sep]"] by (auto simp: strip_paths_def)

lemma first_override_surviving:
  "first_override (surviving_entry tbl) path =
     (if tbl \<noteq> [] \<and> path \<in> set (strip_paths (snd (last tbl))) then Some (fst (last tbl)) else None)"
  by (simp add: first_override_def surviving_entry_def)

text \<open>
  Claim C5, as amended. After the normalization step each of the three override tables
  is: empty, when the table was absent or empty; otherwise the single entry of its
  last-iterated key with the trailing \<open>/\<close> characters stripped from each of that key's
  paths. No path of a normalized table ends with \<open>/\<close>, and the later checks (the paths
  collected for override validation, and policy resolution) consult only that entry.
\<close>

theorem C5_normalized_override_tables:
  assumes "normalize_overrides a = Inr a'" and "n \<in> set override_arg_names"
  shows "map_of a' n = Some (Dict (surviving_entry (table_of a n)))
     \<and> (table_of a n \<noteq> [] \<longrightarrow>
          surviving_entry (table_of a n)
            = [(fst (last (table_of a n)), strip_paths (snd (last (table_of a n))))])
     \<and> (table_of a n = [] \<longrightarrow> surviving_entry (table_of a n) = [])
     \<and> (\<forall>p\<in>set (concat (map snd (surviving_entry (table_of a n)))). p = [] \<or> last p \<noteq> sep)
     \<and> table_paths a' n = Inr (concat (map snd (surviving_entry (table_of a n))))
     \<and> lookup_override a' n path
         = Inr (if table_of a n \<noteq> [] \<and> path \<in> set (strip_paths (snd (last (table_of a n))))
                then Some (fst (last (table_of a n))) else None)"
proof -
  have m: "map_of a' n = Some (Dict (surviving_entry (table_of a n)))"
    using normalize_overrides_Inr [OF assms(1)] assms(2) by (simp add: normalize_table_last)
  have s1: "table_of a n \<noteq> [] \<longrightarrow>
          surviving_entry (table_of a n)
            = [(fst (last (table_of a n)), strip_paths (snd (last (table_of a n))))]"
    by (simp add: surviving_entry_def)
  have s2: "table_of a n = [] \<longrightarrow> surviving_entry (table_of a n) = []"
    by (simp add: surviving_entry_def)
  have nt: "\<forall>p\<in>set (concat (map snd (surviving_entry (table_of a n)))). p = [] \<or> last p \<noteq> sep"
    using strip_paths_no_trailing by (auto simp: surviving_entry_def)
  have tp: "table_paths a' n = Inr (concat (map snd (surviving_entry (table_of a n))))"
    using m by (simp add: table_paths_def and_then_def getitem_def dict_items_def)
  have lo: "lookup_override a' n path
         = Inr (if table_of a n \<noteq> [] \<and> path \<in> set (strip_paths (snd (last (table_of a n))))
                then Some (fst (last (table_of a n))) else None)"
    using lookup_override_ok [OF m] by (simp add: first_override_surviving)
  show ?thesis by (intro conjI) (rule m s1 s2 nt tp lo)+
qed

theorem C5_normalized_override_tables_witness:
  "normalize_overrides two_entry_args
     = Inr (scenario_args @
              [(''mode_overrides'', Dict [(Str ''0700'', [''/a''])]),
               (''owner_overrides'', Dict []), (''group_overrides'', Dict [])])
   \<and> ''mode_overrides'' \<in> set override_arg_names
   \<and> table_paths (scenario_args @
              [(''mode_overrides'', Dict [(Str ''0700'', [''/a''])]),
               (''owner_overrides'', Dict []), (''group_overrides'', Dict [])]) ''mode_overrides''
       = Inr [''/a'']"
proof -
  have norm: "normalize_overrides two_entry_args
     = Inr (scenario_args @
              [(''mode_overrides'', Dict [(Str ''0700'', [''/a''])]),
               (''owner_overrides'', Dict []), (''group_overrides'', Dict [])])"
    by code_simp
  have mem: "''mode_overrides'' \<in> set override_arg_names"
    by (simp add: override_arg_names_def)
  have tbl: "table_of two_entry_args ''mode_overrides''
      = [(Str ''0600'', [''/not/a/real/path'']), (Str ''0700'', [''/a/''])]"
    by (simp add: table_of_def two_entry_args_def scenario_args_def)
  have surv: "surviving_entry (table_of two_entry_args ''mode_overrides'') = [(Str ''0700'', [''/a''])]"
    unfolding tbl by (simp add: surviving_entry_def strip_paths_def rstrip_def sep_def)
  have "table_paths (scenario_args @
              [(''mode_overrides'', Dict [(Str ''0700'', [''/a''])]),
               (''owner_overrides'', Dict []), (''group_overrides'', Dict [])]) ''mode_overrides''
       = Inr [''/a'']"
  proof -
    have "table_paths (scenario_args @
              [(''mode_overrides'', Dict [(Str ''0700'', [''/a''])]),
               (''owner_overrides'', Dict []), (''group_overrides'', Dict [])]) ''mode_overrides''
       = Inr (concat (map snd (surviving_entry (table_of two_entry_args ''mode_overrides''))))"
      using C5_normalized_override_tables [OF norm mem, of "[]"] by blast
    also have "\<dots> = Inr [''/a'']" by (simp only: surv) simp
    finally show ?thesis .
  qed
  with norm mem show ?thesis by simp
qed

text \<open>
  The claim as stated says that every override table is a single-entry mapping after
  normalization. With no override table given, all three are empty.
\<close>

theorem C5_counterexample:
  "normalize_overrides scenario_args
     = Inr (scenario_args @
              [(''mode_overrides'', Dict []), (''owner_overrides'', Dict []),
               (''group_overrides'', Dict [])])"
  by code_simp

section \<open>Override paths that are never validated\<close>

text \<open>
  Claim C1 says that any path listed in any override table that is no destination path
  makes \<open>run\<close> fail before any operation. Here \<open>mode_overrides\<close> lists
  \<open>/not/a/real/path\<close> under its first key and \<open>/a/\<close> under its last: normalization keeps
  the last entry only, the first is never checked, and \<open>run\<close> issues all three operations
  and returns \<open>failed = False\<close>.
\<close>

theorem C1_unchecked_override_path:
  "r_copy_run scenario_node scenario_remote two_entry_args ()
     = Inr (\<lparr>changed = True, failed = False, msg = [], diff = []\<rparr>,
            [(FileDirectory ''/a'' (Str ''root'') (Str ''root'') (Str ''0700''), changed_output),
             (FileDirectory ''/a/b'' (Str ''root'') (Str ''root'') (Str ''0755''), changed_output),
             (CopyFile ''/local/a/b/file.txt'' ''/a/b/file.txt'' (Str ''root'') (Str ''root'')
                (Str ''0644''), changed_output)],
            ())"
  by code_simp

section \<open>A source root without files\<close>

text \<open>
  Claim C6 says that a source root without regular files gives a run that returns
  \<open>failed = False\<close> and \<open>changed = False\<close>. The parent list is empty then, and
  \<open>destination_dirs.remove("/")\<close> raises \<open>ValueError\<close>: \<open>run\<close> returns no result.
\<close>

theorem C6_empty_tree_raises:
  "get_all_parent_dirs [] = Inr []
   \<and> r_copy_run empty_tree_node scenario_remote scenario_args () = Inl ValueError"
  by code_simp

section \<open>What the template variant validates\<close>

lemma failed_template_update:
  "failed (template_update_result_from_task r t) = (failed r \<or> reports_failure t)"
  by (simp add: template_update_result_from_task_def Let_def failed_add_diff failed_flags
           split: option.splits)

lemma create_missing_dirs_ok:
  assumes ok: "\<And>op w. \<not> reports_failure (fst (execute_op remote op w))" and nf: "\<not> failed r"
  shows "\<exists>r' tr' w'. create_missing_dirs remote a dirs (r, tr, w) = (False, r', tr', w') \<and> \<not> failed r'"
  using nf
proof (induction dirs arbitrary: r tr w)
  case Nil
  then show ?case by simp
next
  case (Cons d dirs)
  obtain ex isd w1 where st: "execute_remote_stat remote d w = ((ex, isd), w1)"
    by (metis prod.exhaust)
  show ?case
  proof (cases "ex \<and> isd")
    case True
    then show ?thesis using st Cons.IH [OF Cons.prems] by simp
  next
    case False
    obtain out w2 where op: "execute_op remote (create_directory a d) w1 = (out, w2)"
      by (metis prod.exhaust)
    have "\<not> reports_failure out" using ok [of "create_directory a d" w1] op by simp
    then have nf': "\<not> failed (template_update_result_from_task r out)"
      using Cons.prems by (simp add: failed_template_update)
    show ?thesis using st False op nf' Cons.IH [OF nf'] by (simp add: Let_def)
  qed
qed

lemma run_template_action_ok:
  "map_of a ''templates_root'' \<noteq> None \<Longrightarrow> \<exists>op. run_template_action a sd = Inr op"
  by (cases sd) (simp add: run_template_action_def Let_def update_conv')

lemma render_each_ok:
  assumes ok: "\<And>op w. \<not> reports_failure (fst (execute_op remote op w))" and nf: "\<not> failed r"
    and root: "map_of a ''templates_root'' \<noteq> None"
  shows "\<exists>r' tr' w'. render_each remote a sds (r, tr, w) = Inr (False, r', tr', w') \<and> \<not> failed r'"
  using nf
proof (induction sds arbitrary: r tr w)
  case Nil
  then show ?case by simp
next
  case (Cons sd sds)
  obtain op where b: "run_template_action a sd = Inr op"
    using run_template_action_ok [OF root] by blast
  obtain out w1 where ex: "execute_op remote op w = (out, w1)" by (metis prod.exhaust)
  have "\<not> reports_failure out" using ok [of op w] ex by simp
  then have nf': "\<not> failed (template_update_result_from_task r out)"
    using Cons.prems by (simp add: failed_template_update)
  show ?case using b ex nf' Cons.IH [OF nf'] by (simp add: Let_def)
qed

text \<open>
  Claim C7, as amended. The template variant's \<open>run\<close> returns \<open>failed = True\<close> with no
  remote request made when \<open>templates_root\<close> is absent or names no directory. Whatever
  other arguments are given or missing (\<open>owner\<close>, \<open>group\<close>, \<open>mode\<close>, or a field the
  plugin does not know), with \<open>templates_root\<close> a directory and a remote side that reports
  no failure the run returns a result that has not failed.
\<close>

theorem C7_template_validation:
  "((map_of a ''templates_root'' = None
       \<or> (\<exists>root. map_of a ''templates_root'' = Some (Str root) \<and> \<not> isdir cn root))
      \<longrightarrow> (\<exists>m. template_run cn remote a w = Inr (result_failed init_result m, [], w)))
   \<and> (map_of a ''templates_root'' = Some (Str root) \<and> isdir cn root
        \<and> (\<forall>op w. \<not> reports_failure (fst (execute_op remote op w)))
      \<longrightarrow> (\<exists>r tr w'. template_run cn remote a w = Inr (r, tr, w') \<and> \<not> failed r))"
proof (intro conjI impI)
  assume "map_of a ''templates_root'' = None
       \<or> (\<exists>root. map_of a ''templates_root'' = Some (Str root) \<and> \<not> isdir cn root)"
  then show "\<exists>m. template_run cn remote a w = Inr (result_failed init_result m, [], w)"
    by (auto simp: template_run_def)
next
  assume h: "map_of a ''templates_root'' = Some (Str root) \<and> isdir cn root
        \<and> (\<forall>op w. \<not> reports_failure (fst (execute_op remote op w)))"
  define a' where "a' = (if map_of a ''mode'' = None then AList.update ''mode'' (Str ''0644'') a else a)"
  define files where "files = template_files cn root"
  have ok: "\<And>op w. \<not> reports_failure (fst (execute_op remote op w))" using h by simp
  have i0: "\<not> failed init_result" by (simp add: init_result_def)
  obtain r1 tr1 w1 where c: "create_missing_dirs remote a'
       (set_order cn (map (\<lambda>x. os_path_dirname (snd x)) files)) (init_result, [], w) = (False, r1, tr1, w1)"
    and nf1: "\<not> failed r1"
    using create_missing_dirs_ok [of remote init_result, OF ok i0] by blast
  have root': "map_of a' ''templates_root'' \<noteq> None"
    using h by (simp add: a'_def update_conv')
  obtain r2 tr2 w2 where e: "render_each remote a' files (r1, tr1, w1) = Inr (False, r2, tr2, w2)"
    and nf2: "\<not> failed r2"
    using render_each_ok [of remote r1 a', OF ok nf1 root'] by blast
  have "template_run cn remote a w = Inr (r2, tr2, w2)"
    using h c e by (simp add: template_run_def a'_def files_def Let_def and_then_def)
  with nf2 show "\<exists>r tr w'. template_run cn remote a w = Inr (r, tr, w') \<and> \<not> failed r" by blast
qed

theorem C7_template_validation_witness:
  "(\<exists>m. template_run template_node template_remote_absent
           [(''owner'', Str ''root''), (''group'', Str ''root''), (''mode'', Str ''0644'')] ()
         = Inr (result_failed init_result m, [], ()))
   \<and> (\<exists>r tr w'. template_run template_node template_remote_absent
                   [(''templates_root'', Str ''/templates''), (''bogus'', Str ''x'')] ()
                 = Inr (r, tr, w') \<and> \<not> failed r)"
proof -
  have ok: "\<forall>op w. \<not> reports_failure (fst (execute_op template_remote_absent op w))"
    by (simp add: template_remote_absent_def changed_output_def reports_failure_def)
  have dir: "isdir template_node ''/templates''"
    by (simp add: template_node_def)
  have "\<exists>m. template_run template_node template_remote_absent
           [(''owner'', Str ''root''), (''group'', Str ''root''), (''mode'', Str ''0644'')] ()
         = Inr (result_failed init_result m, [], ())"
    using C7_template_validation
      [of "[(''owner'', Str ''root''), (''group'', Str ''root''), (''mode'', Str ''0644'')]"
          template_node template_remote_absent "()" "''/templates''"]
    by simp
  moreover have "\<exists>r tr w'. template_run template_node template_remote_absent
                   [(''templates_root'', Str ''/templates''), (''bogus'', Str ''x'')] ()
                 = Inr (r, tr, w') \<and> \<not> failed r"
    using C7_template_validation
      [of "[(''templates_root'', Str ''/templates''), (''bogus'', Str ''x'')]"
          template_node template_remote_absent "()" "''/templates''"] ok dir
    by simp
  ultimately show ?thesis by blast
qed

text \<open>
  The claim as stated fails: without \<open>owner\<close>, \<open>group\<close> and \<open>mode\<close>, and with a field the
  plugin does not know, the run creates the directory and renders the template, the
  unknown field being passed on to the template action.
\<close>

theorem C7_counterexample:
  "template_run template_node template_remote_absent
     [(''templates_root'', Str ''/templates''), (''bogus'', Str ''x'')] ()
   = Inr (\<lparr>changed = True, failed = False, msg = [], diff = []\<rparr>,
          [StatEvent ''/etc'' False False,
           OpEvent (FileModule [(''path'', Str ''/etc''), (''state'', Str ''directory''),
                                (''mode'', Str ''0755'')]) changed_output,
           OpEvent (TemplateAction [(''bogus'', Str ''x''), (''mode'', Str ''0644''),
                                    (''src'', Str ''/templates/etc/config.yml.j2''),
                                    (''dest'', Str ''/etc/config.yml'')]) changed_output],
          ())"
  by code_simp

section \<open>The template variant: suffix and directory creation\<close>



lemma last_event_append: "last_event prev (xs @ ys) = last_event (last_event prev xs) ys"
  by (simp add: last_event_def)
















end
